theory Spec2Isabelle
  imports Main "HOL-Library.AList"
begin

section \<open>Python values used by the SQuAD processor\<close>

text \<open>
  A Python \<open>str\<close> is a sequence of Unicode code points, so a string is modelled as a list
  of code points (natural numbers); \<open>len\<close> is \<open>length\<close>. Python integers are unbounded:
  they are \<open>int\<close>. The exceptions the code can raise are values of \<open>error\<close>, and a function
  that can raise returns \<open>error + 'a\<close> with \<open>Inl\<close> for the exception.
\<close>

type_synonym pychar = nat
type_synonym pystr = "pychar list"

datatype error = ValueError | IndexError | TypeError | AttributeError

definition str :: "string \<Rightarrow> pystr" where
  "str s = map of_char s"

text \<open>\<open>xs[i]\<close>: a negative index counts from the end, an index out of range raises.\<close>

definition py_index :: "'a list \<Rightarrow> int \<Rightarrow> error + 'a" where
  "py_index xs i =
     (let n = int (length xs); j = (if i < 0 then i + n else i)
      in if 0 \<le> j \<and> j < n then Inr (xs ! nat j) else Inl IndexError)"

text \<open>\<open>xs[a:b]\<close>: negative bounds count from the end, then both are clipped; never raises.\<close>

definition py_clip :: "int \<Rightarrow> int \<Rightarrow> nat" where
  "py_clip n i = (if i < 0 then nat (max (i + n) 0) else nat (min i n))"

definition py_slice :: "'a list \<Rightarrow> int \<Rightarrow> int \<Rightarrow> 'a list" where
  "py_slice xs a b =
     (let n = int (length xs); lo = py_clip n a; hi = py_clip n b
      in take (hi - lo) (drop lo xs))"

text \<open>\<open>" ".join(xs)\<close>\<close>

fun join_space :: "pystr list \<Rightarrow> pystr" where
  "join_space [] = []"
| "join_space [x] = x"
| "join_space (x # y # ys) = x @ [32] @ join_space (y # ys)"

text \<open>\<open>s.find(sub)\<close>: the lowest index at which \<open>sub\<close> occurs in \<open>s\<close>, or \<open>-1\<close>.\<close>

fun find_from :: "nat \<Rightarrow> 'a list \<Rightarrow> 'a list \<Rightarrow> int" where
  "find_from k [] sub = (if sub = [] then int k else -1)"
| "find_from k (c # cs) sub =
     (if take (length sub) (c # cs) = sub then int k else find_from (Suc k) cs sub)"

definition py_find :: "'a list \<Rightarrow> 'a list \<Rightarrow> int" where
  "py_find s sub = find_from 0 s sub"

section \<open>The raw example: \<open>SquadExample\<close>\<close>

definition is_whitespace :: "pychar \<Rightarrow> bool" where
  "is_whitespace c \<longleftrightarrow> c = 32 \<or> c = 9 \<or> c = 13 \<or> c = 10 \<or> c = 0x202F"

record SquadExample =
  ex_qas_id :: pystr
  ex_question_text :: pystr
  ex_context_text :: pystr
  ex_answer_text :: "pystr option"
  ex_title :: pystr
  ex_is_impossible :: bool
  ex_start_position :: int
  ex_end_position :: int
  ex_doc_tokens :: "pystr list"
  ex_char_to_word_offset :: "int list"

text \<open>
  The loop of \<open>SquadExample.__init__\<close> over the characters of the context. Its state is
  \<open>doc_tokens\<close>, \<open>char_to_word_offset\<close> and \<open>prev_is_whitespace\<close>. The statement
  \<open>doc_tokens[-1] += c\<close> raises \<open>IndexError\<close> on an empty list; that branch is kept.
\<close>

fun split_context ::
  "pystr \<Rightarrow> pystr list \<Rightarrow> int list \<Rightarrow> bool \<Rightarrow> error + (pystr list \<times> int list)" where
  "split_context [] doc_tokens char_to_word_offset prev_is_whitespace =
     Inr (doc_tokens, char_to_word_offset)"
| "split_context (c # cs) doc_tokens char_to_word_offset prev_is_whitespace =
     (if is_whitespace c then
        split_context cs doc_tokens
          (char_to_word_offset @ [int (length doc_tokens) - 1]) True
      else if prev_is_whitespace then
        split_context cs (doc_tokens @ [[c]])
          (char_to_word_offset @ [int (length (doc_tokens @ [[c]])) - 1]) False
      else if doc_tokens = [] then Inl IndexError
      else
        split_context cs (butlast doc_tokens @ [last doc_tokens @ [c]])
          (char_to_word_offset @ [int (length doc_tokens) - 1]) False)"

definition SquadExample_init ::
  "pystr \<Rightarrow> pystr \<Rightarrow> pystr \<Rightarrow> pystr option \<Rightarrow> int option \<Rightarrow> pystr \<Rightarrow> bool
     \<Rightarrow> error + SquadExample" where
  "SquadExample_init qas_id question_text context_text answer_text
       start_position_character title is_impossible =
     (case split_context context_text [] [] True of
        Inl e \<Rightarrow> Inl e
      | Inr (doc_tokens, char_to_word_offset) \<Rightarrow>
          (let ex = \<lparr> ex_qas_id = qas_id, ex_question_text = question_text,
                      ex_context_text = context_text, ex_answer_text = answer_text,
                      ex_title = title, ex_is_impossible = is_impossible,
                      ex_start_position = 0, ex_end_position = 0,
                      ex_doc_tokens = doc_tokens,
                      ex_char_to_word_offset = char_to_word_offset \<rparr>
           in case start_position_character of
                None \<Rightarrow> Inr ex
              | Some spc \<Rightarrow>
                  if is_impossible then Inr ex
                  else (case py_index char_to_word_offset spc of
                          Inl e \<Rightarrow> Inl e
                        | Inr sp \<Rightarrow>
                            (case answer_text of
                               None \<Rightarrow> Inl TypeError
                             | Some a \<Rightarrow>
                                 (case py_index char_to_word_offset
                                         (spc + int (length a) - 1) of
                                    Inl e \<Rightarrow> Inl e
                                  | Inr ep \<Rightarrow>
                                      Inr (ex\<lparr> ex_start_position := sp,
                                               ex_end_position := ep \<rparr>))))))"

section \<open>The dataset reader: \<open>SquadProcessor._create_examples\<close>\<close>

text \<open>
  The parsed JSON, typed as the file format fixes it. The key \<open>is_impossible\<close> is
  optional, so its field is an option.
\<close>

record answer =
  ans_text :: pystr
  ans_answer_start :: int

record qa =
  qa_id :: pystr
  qa_question :: pystr
  qa_is_impossible :: "bool option"
  qa_answers :: "answer list"

record para =
  par_context :: pystr
  par_qas :: "qa list"

record entry =
  entry_title :: pystr
  entry_paragraphs :: "para list"

text \<open>
  The body of the innermost loop up to the construction of the example: the default of
  \<open>is_impossible\<close>, the check of the number of answers, and the call of the constructor.
\<close>

definition qa_is_impossible_or_default :: "qa \<Rightarrow> bool" where
  "qa_is_impossible_or_default q = (case qa_is_impossible q of Some b \<Rightarrow> b | None \<Rightarrow> False)"

definition qa_example :: "bool \<Rightarrow> pystr \<Rightarrow> pystr \<Rightarrow> qa \<Rightarrow> error + SquadExample" where
  "qa_example is_training title context_text q =
     (let is_impossible = qa_is_impossible_or_default q
      in if \<not> is_impossible \<and> is_training then
           if length (qa_answers q) \<noteq> 1 then Inl ValueError
           else (let answer = hd (qa_answers q)
                 in SquadExample_init (qa_id q) (qa_question q) context_text
                      (Some (ans_text answer)) (Some (ans_answer_start answer))
                      title is_impossible)
         else SquadExample_init (qa_id q) (qa_question q) context_text None None
                title is_impossible)"

text \<open>
  The three nested loops. \<open>return examples\<close> inside the innermost loop leaves all three:
  a loop yields \<open>Return\<close> when the function has returned and \<open>Next\<close> when the loop ran to
  its end.
\<close>

datatype 'a flow = Next 'a | Return 'a

definition limit_exceeded :: "int option \<Rightarrow> 'a list \<Rightarrow> bool" where
  "limit_exceeded only_first examples =
     (case only_first of None \<Rightarrow> False | Some n \<Rightarrow> int (length examples) > n)"

fun qas_loop ::
  "bool \<Rightarrow> int option \<Rightarrow> pystr \<Rightarrow> pystr \<Rightarrow> qa list \<Rightarrow> SquadExample list
     \<Rightarrow> error + SquadExample list flow" where
  "qas_loop is_training only_first title context_text [] examples = Inr (Next examples)"
| "qas_loop is_training only_first title context_text (q # rest) examples =
     (case qa_example is_training title context_text q of
        Inl e \<Rightarrow> Inl e
      | Inr example \<Rightarrow>
          if limit_exceeded only_first (examples @ [example])
          then Inr (Return (examples @ [example]))
          else qas_loop is_training only_first title context_text rest
                 (examples @ [example]))"

fun paragraphs_loop ::
  "bool \<Rightarrow> int option \<Rightarrow> pystr \<Rightarrow> para list \<Rightarrow> SquadExample list
     \<Rightarrow> error + SquadExample list flow" where
  "paragraphs_loop is_training only_first title [] examples = Inr (Next examples)"
| "paragraphs_loop is_training only_first title (p # rest) examples =
     (case qas_loop is_training only_first title (par_context p) (par_qas p) examples of
        Inl e \<Rightarrow> Inl e
      | Inr (Return r) \<Rightarrow> Inr (Return r)
      | Inr (Next examples') \<Rightarrow>
          paragraphs_loop is_training only_first title rest examples')"

fun entries_loop ::
  "bool \<Rightarrow> int option \<Rightarrow> entry list \<Rightarrow> SquadExample list
     \<Rightarrow> error + SquadExample list flow" where
  "entries_loop is_training only_first [] examples = Inr (Next examples)"
| "entries_loop is_training only_first (en # rest) examples =
     (case paragraphs_loop is_training only_first (entry_title en)
             (entry_paragraphs en) examples of
        Inl e \<Rightarrow> Inl e
      | Inr (Return r) \<Rightarrow> Inr (Return r)
      | Inr (Next examples') \<Rightarrow> entries_loop is_training only_first rest examples')"

definition create_examples ::
  "entry list \<Rightarrow> pystr \<Rightarrow> int option \<Rightarrow> error + SquadExample list" where
  "create_examples input_data set_type only_first =
     (let is_training = (set_type = str ''train'')
      in case entries_loop is_training only_first input_data [] of
           Inl e \<Rightarrow> Inl e
         | Inr (Return r) \<Rightarrow> Inr r
         | Inr (Next r) \<Rightarrow> Inr r)"

text \<open>
  The questions of the whole input in the order the loops visit them, each with the title
  of its entry and the context of its paragraph.
\<close>

definition paragraph_questions :: "pystr \<Rightarrow> para \<Rightarrow> (pystr \<times> pystr \<times> qa) list" where
  "paragraph_questions title p = map (\<lambda>q. (title, par_context p, q)) (par_qas p)"

definition entry_questions :: "entry \<Rightarrow> (pystr \<times> pystr \<times> qa) list" where
  "entry_questions en = concat (map (paragraph_questions (entry_title en)) (entry_paragraphs en))"

definition all_questions :: "entry list \<Rightarrow> (pystr \<times> pystr \<times> qa) list" where
  "all_questions input_data = concat (map entry_questions input_data)"

definition question_example :: "bool \<Rightarrow> pystr \<times> pystr \<times> qa \<Rightarrow> error + SquadExample" where
  "question_example is_training tq =
     (case tq of (title, context_text, q) \<Rightarrow> qa_example is_training title context_text q)"

text \<open>
  The reading of the limit in the specification: the count is compared with the limit
  only when a whole paragraph's questions have been added.
\<close>

fun spec_qas_loop ::
  "bool \<Rightarrow> pystr \<Rightarrow> pystr \<Rightarrow> qa list \<Rightarrow> SquadExample list \<Rightarrow> error + SquadExample list" where
  "spec_qas_loop is_training title context_text [] examples = Inr examples"
| "spec_qas_loop is_training title context_text (q # rest) examples =
     (case qa_example is_training title context_text q of
        Inl e \<Rightarrow> Inl e
      | Inr example \<Rightarrow>
          spec_qas_loop is_training title context_text rest (examples @ [example]))"

fun spec_paragraphs_loop ::
  "bool \<Rightarrow> int option \<Rightarrow> pystr \<Rightarrow> para list \<Rightarrow> SquadExample list
     \<Rightarrow> error + SquadExample list flow" where
  "spec_paragraphs_loop is_training only_first title [] examples = Inr (Next examples)"
| "spec_paragraphs_loop is_training only_first title (p # rest) examples =
     (case spec_qas_loop is_training title (par_context p) (par_qas p) examples of
        Inl e \<Rightarrow> Inl e
      | Inr examples' \<Rightarrow>
          if limit_exceeded only_first examples' then Inr (Return examples')
          else spec_paragraphs_loop is_training only_first title rest examples')"

fun spec_entries_loop ::
  "bool \<Rightarrow> int option \<Rightarrow> entry list \<Rightarrow> SquadExample list
     \<Rightarrow> error + SquadExample list flow" where
  "spec_entries_loop is_training only_first [] examples = Inr (Next examples)"
| "spec_entries_loop is_training only_first (en # rest) examples =
     (case spec_paragraphs_loop is_training only_first (entry_title en)
             (entry_paragraphs en) examples of
        Inl e \<Rightarrow> Inl e
      | Inr (Return r) \<Rightarrow> Inr (Return r)
      | Inr (Next examples') \<Rightarrow> spec_entries_loop is_training only_first rest examples')"

definition spec_create_examples ::
  "entry list \<Rightarrow> pystr \<Rightarrow> int option \<Rightarrow> error + SquadExample list" where
  "spec_create_examples input_data set_type only_first =
     (let is_training = (set_type = str ''train'')
      in case spec_entries_loop is_training only_first input_data [] of
           Inl e \<Rightarrow> Inl e
         | Inr (Return r) \<Rightarrow> Inr r
         | Inr (Next r) \<Rightarrow> Inr r)"

definition count_of :: "error + 'a list \<Rightarrow> error + nat" where
  "count_of r = (case r of Inl e \<Rightarrow> Inl e | Inr xs \<Rightarrow> Inr (length xs))"

text \<open>
  For the proofs: the three loops as one loop over the questions in visiting order, the
  value carried by either outcome of a loop, and the notions the claims use. A question
  is encountered when every question before it yielded an example and the limit did not
  end the function before it.
\<close>

fun flat_loop ::
  "bool \<Rightarrow> int option \<Rightarrow> (pystr \<times> pystr \<times> qa) list \<Rightarrow> SquadExample list
     \<Rightarrow> error + SquadExample list flow" where
  "flat_loop is_training only_first [] examples = Inr (Next examples)"
| "flat_loop is_training only_first (tq # rest) examples =
     (case question_example is_training tq of
        Inl e \<Rightarrow> Inl e
      | Inr example \<Rightarrow>
          if limit_exceeded only_first (examples @ [example])
          then Inr (Return (examples @ [example]))
          else flat_loop is_training only_first rest (examples @ [example]))"

definition succeeds :: "error + 'a \<Rightarrow> bool" where
  "succeeds r = (case r of Inl e \<Rightarrow> False | Inr v \<Rightarrow> True)"

definition answer_count_invalid :: "qa \<Rightarrow> bool" where
  "answer_count_invalid q \<longleftrightarrow> \<not> qa_is_impossible_or_default q \<and> length (qa_answers q) \<noteq> 1"

definition encountered :: "bool \<Rightarrow> int option \<Rightarrow> (pystr \<times> pystr \<times> qa) list \<Rightarrow> nat \<Rightarrow> bool" where
  "encountered is_training only_first qs k \<longleftrightarrow>
     (\<forall>j<k. succeeds (question_example is_training (qs ! j)))
     \<and> (case only_first of None \<Rightarrow> True | Some n \<Rightarrow> k = 0 \<or> int k \<le> n)"

fun flow_value :: "'a flow \<Rightarrow> 'a" where
  "flow_value (Next x) = x"
| "flow_value (Return x) = x"

text \<open>An input of one paragraph with three questions.\<close>

definition three_questions :: "entry list" where
  "three_questions =
     [\<lparr> entry_title = str ''t'',
         entry_paragraphs =
           [\<lparr> par_context = str ''ab c'',
               par_qas = [\<lparr> qa_id = str ''1'', qa_question = str ''q'',
                             qa_is_impossible = None, qa_answers = [] \<rparr>,
                          \<lparr> qa_id = str ''2'', qa_question = str ''q'',
                             qa_is_impossible = None,
                             qa_answers = [\<lparr> ans_text = str ''c'', ans_answer_start = 3 \<rparr>] \<rparr>,
                          \<lparr> qa_id = str ''3'', qa_question = str ''q'',
                             qa_is_impossible = Some True, qa_answers = [] \<rparr>] \<rparr>] \<rparr>]"

section \<open>The external tokenizer and floating-point arithmetic\<close>

text \<open>
  The tokenizer is not part of this code: it is a parameter, a record of the operations
  and attributes the pipeline uses. Its operations are taken to return a value. The two
  sequences given to \<open>encode_plus\<close> are lists of token strings or lists of ids; the
  keyword arguments with a constant value (\<open>return_overflowing_tokens=True\<close>,
  \<open>padding_strategy='right'\<close>, \<open>add_special_tokens=False\<close>) are left out. The key
  \<open>overflowing_tokens\<close> of the returned dictionary may be absent.
\<close>

datatype pyseq = Toks "pystr list" | Ids "int list"

datatype truncation = OnlyFirst | OnlySecond

record encoded =
  input_ids :: "int list"
  token_type_ids :: "int list"
  attention_mask :: "int list"
  overflowing_tokens :: "pyseq option"

record tokenizer =
  tokenize :: "pystr \<Rightarrow> pystr list"
  encode :: "pystr \<Rightarrow> int \<Rightarrow> int list"
  encode_plus :: "pyseq \<Rightarrow> pyseq \<Rightarrow> int \<Rightarrow> int \<Rightarrow> truncation \<Rightarrow> encoded"
  convert_ids_to_tokens :: "int list \<Rightarrow> pystr list"
  pad_token_id :: int
  sep_token_id :: int
  cls_token_id :: int
  max_len :: int
  max_len_single_sentence :: int
  max_len_sentences_pair :: int

text \<open>
  The score of a window is a Python float. Floating-point arithmetic is a parameter too:
  \<open>times_0_01 n\<close> is \<open>0.01 * n\<close>, \<open>int_plus m x\<close> is \<open>m + x\<close> and \<open>greater x y\<close> is \<open>x > y\<close>.
\<close>

record 'f float_arith =
  times_0_01 :: "int \<Rightarrow> 'f"
  int_plus :: "int \<Rightarrow> 'f \<Rightarrow> 'f"
  greater :: "'f \<Rightarrow> 'f \<Rightarrow> bool"

section \<open>Answer-span refinement: \<open>_improve_answer_span\<close>\<close>

text \<open>The inner loop, \<open>for new_end in range(input_end, new_start - 1, -1)\<close>.\<close>

function improve_inner :: "pystr list \<Rightarrow> pystr \<Rightarrow> int \<Rightarrow> int \<Rightarrow> (int \<times> int) option" where
  "improve_inner doc_tokens tok_answer_text new_start new_end =
     (if new_end < new_start then None
      else if join_space (py_slice doc_tokens new_start (new_end + 1)) = tok_answer_text
           then Some (new_start, new_end)
      else improve_inner doc_tokens tok_answer_text new_start (new_end - 1))"
  by pat_completeness auto
termination
  by (relation "measure (\<lambda>(d, t, s, e). nat (e - s + 1))") auto

text \<open>The outer loop, \<open>for new_start in range(input_start, input_end + 1)\<close>.\<close>

function improve_outer :: "pystr list \<Rightarrow> pystr \<Rightarrow> int \<Rightarrow> int \<Rightarrow> (int \<times> int) option" where
  "improve_outer doc_tokens tok_answer_text input_end new_start =
     (if input_end < new_start then None
      else (case improve_inner doc_tokens tok_answer_text new_start input_end of
              Some r \<Rightarrow> Some r
            | None \<Rightarrow> improve_outer doc_tokens tok_answer_text input_end (new_start + 1)))"
  by pat_completeness auto
termination
  by (relation "measure (\<lambda>(d, t, e, s). nat (e - s + 1))") auto

declare improve_inner.simps [simp del] improve_outer.simps [simp del]

definition improve_answer_span ::
  "pystr list \<Rightarrow> int \<Rightarrow> int \<Rightarrow> tokenizer \<Rightarrow> pystr \<Rightarrow> int \<times> int" where
  "improve_answer_span doc_tokens input_start input_end T orig_answer_text =
     (let tok_answer_text = join_space (tokenize T orig_answer_text)
      in case improve_outer doc_tokens tok_answer_text input_end input_start of
           Some r \<Rightarrow> r
         | None \<Rightarrow> (input_start, input_end))"

text \<open>
  The specification's description: the sub-ranges in the order start ascending, end
  descending, the first one whose text matches, the original bounds if there is none.
\<close>

definition sub_ranges :: "int \<Rightarrow> int \<Rightarrow> (int \<times> int) list" where
  "sub_ranges input_start input_end =
     concat (map (\<lambda>s. map (\<lambda>e. (s, e)) (rev [s..input_end])) [input_start..input_end])"

definition range_text :: "pystr list \<Rightarrow> int \<times> int \<Rightarrow> pystr" where
  "range_text doc_tokens r = join_space (py_slice doc_tokens (fst r) (snd r + 1))"

definition spec_improve_answer_span ::
  "pystr list \<Rightarrow> int \<Rightarrow> int \<Rightarrow> tokenizer \<Rightarrow> pystr \<Rightarrow> int \<times> int" where
  "spec_improve_answer_span doc_tokens input_start input_end T orig_answer_text =
     (case List.find (\<lambda>r. range_text doc_tokens r = join_space (tokenize T orig_answer_text))
             (sub_ranges input_start input_end) of
        Some r \<Rightarrow> r
      | None \<Rightarrow> (input_start, input_end))"

section \<open>Max-context resolution\<close>

text \<open>
  \<open>_check_is_max_context\<close> reads \<open>start\<close> and \<open>length\<close> as attributes of a span object,
  \<open>_new_check_is_max_context\<close> reads them as entries of the span dictionary. The loops
  carry \<open>best_score\<close> and \<open>best_span_index\<close>, both \<open>None\<close> at the start.
\<close>

record DocSpan =
  ds_start :: int
  ds_length :: int

record span =
  sp_input_ids :: "int list"
  sp_token_type_ids :: "int list"
  sp_attention_mask :: "int list"
  sp_overflowing_tokens :: "pyseq option"
  sp_paragraph_len :: int
  sp_tokens :: "pystr list"
  sp_token_to_orig_map :: "(int \<times> int) list"
  sp_truncated_query_with_special_tokens_length :: int
  sp_token_is_max_context :: "(int \<times> bool) list"
  sp_start :: int
  sp_length :: int

fun max_context_loop ::
  "'f float_arith \<Rightarrow> int \<Rightarrow> int \<Rightarrow> DocSpan list \<Rightarrow> 'f option \<Rightarrow> int option \<Rightarrow> int option" where
  "max_context_loop F position span_index [] best_score best_span_index = best_span_index"
| "max_context_loop F position span_index (doc_span # rest) best_score best_span_index =
     (let end_pos = ds_start doc_span + ds_length doc_span - 1
      in if position < ds_start doc_span then
           max_context_loop F position (span_index + 1) rest best_score best_span_index
         else if position > end_pos then
           max_context_loop F position (span_index + 1) rest best_score best_span_index
         else
           (let num_left_context = position - ds_start doc_span;
                num_right_context = end_pos - position;
                score = int_plus F (min num_left_context num_right_context)
                          (times_0_01 F (ds_length doc_span))
            in if (case best_score of None \<Rightarrow> True | Some b \<Rightarrow> greater F score b) then
                 max_context_loop F position (span_index + 1) rest (Some score) (Some span_index)
               else
                 max_context_loop F position (span_index + 1) rest best_score best_span_index))"

definition check_is_max_context :: "'f float_arith \<Rightarrow> DocSpan list \<Rightarrow> int \<Rightarrow> int \<Rightarrow> bool" where
  "check_is_max_context F doc_spans cur_span_index position \<longleftrightarrow>
     Some cur_span_index = max_context_loop F position 0 doc_spans None None"

fun new_max_context_loop ::
  "'f float_arith \<Rightarrow> int \<Rightarrow> int \<Rightarrow> span list \<Rightarrow> 'f option \<Rightarrow> int option \<Rightarrow> int option" where
  "new_max_context_loop F position span_index [] best_score best_span_index = best_span_index"
| "new_max_context_loop F position span_index (doc_span # rest) best_score best_span_index =
     (let end_pos = sp_start doc_span + sp_length doc_span - 1
      in if position < sp_start doc_span then
           new_max_context_loop F position (span_index + 1) rest best_score best_span_index
         else if position > end_pos then
           new_max_context_loop F position (span_index + 1) rest best_score best_span_index
         else
           (let num_left_context = position - sp_start doc_span;
                num_right_context = end_pos - position;
                score = int_plus F (min num_left_context num_right_context)
                          (times_0_01 F (sp_length doc_span))
            in if (case best_score of None \<Rightarrow> True | Some b \<Rightarrow> greater F score b) then
                 new_max_context_loop F position (span_index + 1) rest (Some score)
                   (Some span_index)
               else
                 new_max_context_loop F position (span_index + 1) rest best_score
                   best_span_index))"

definition new_check_is_max_context :: "'f float_arith \<Rightarrow> span list \<Rightarrow> int \<Rightarrow> int \<Rightarrow> bool" where
  "new_check_is_max_context F doc_spans cur_span_index position \<longleftrightarrow>
     Some cur_span_index = new_max_context_loop F position 0 doc_spans None None"

text \<open>The span object that exposes the \<open>start\<close> and \<open>length\<close> of a span dictionary.\<close>

definition as_DocSpan :: "span \<Rightarrow> DocSpan" where
  "as_DocSpan sp = \<lparr> ds_start = sp_start sp, ds_length = sp_length sp \<rparr>"

section \<open>The feature conversion pipeline: \<open>squad_convert_examples_to_features\<close>\<close>

text \<open>
  Python dictionaries keep their keys in the order of insertion and assigning to a key
  that is present replaces its value in place: they are association lists updated by
  \<open>AList.update\<close>.
\<close>

record SquadFeatures =
  f_input_ids :: "int list"
  f_attention_mask :: "int list"
  f_token_type_ids :: "int list"
  f_cls_index :: int
  f_p_mask :: "int list"
  f_example_index :: int
  f_unique_id :: int
  f_paragraph_len :: int
  f_token_is_max_context :: "(int \<times> bool) list"
  f_tokens :: "pystr list"
  f_token_to_orig_map :: "(int \<times> int) list"
  f_start_position :: int
  f_end_position :: int

text \<open>\<open>xs.index(x)\<close>: the first position of \<open>x\<close>, \<open>ValueError\<close> if there is none.\<close>

definition list_index :: "'a list \<Rightarrow> 'a \<Rightarrow> error + nat" where
  "list_index xs x =
     (if x \<in> set xs then Inr (length (takeWhile (\<lambda>y. y \<noteq> x) xs)) else Inl ValueError)"

text \<open>
  The training filter. \<open>whitespace_tokenize\<close> is imported from the tokenizer module and
  is a parameter; it raises on \<open>None\<close>. The result says whether the cleaned answer text
  was found in the text of the answer's tokens.
\<close>

definition answer_is_found :: "(pystr \<Rightarrow> pystr list) \<Rightarrow> SquadExample \<Rightarrow> error + bool" where
  "answer_is_found whitespace_tokenize example =
     (let start_position = ex_start_position example;
          end_position = ex_end_position example;
          actual_text = join_space (py_slice (ex_doc_tokens example) start_position
                                      (end_position + 1))
      in case ex_answer_text example of
           None \<Rightarrow> Inl AttributeError
         | Some a \<Rightarrow>
             (let cleaned_answer_text = join_space (whitespace_tokenize a)
              in Inr (py_find actual_text cleaned_answer_text \<noteq> -1)))"

text \<open>
  Sub-tokenization of the whitespace tokens, with the accumulators \<open>tok_to_orig_index\<close>,
  \<open>orig_to_tok_index\<close> and \<open>all_doc_tokens\<close>; the inner loop appends \<open>i\<close> and the sub-token
  once for every sub-token.
\<close>

fun sub_tokenize ::
  "tokenizer \<Rightarrow> int \<Rightarrow> pystr list \<Rightarrow> int list \<Rightarrow> int list \<Rightarrow> pystr list
     \<Rightarrow> int list \<times> int list \<times> pystr list" where
  "sub_tokenize T i [] tok_to_orig_index orig_to_tok_index all_doc_tokens =
     (tok_to_orig_index, orig_to_tok_index, all_doc_tokens)"
| "sub_tokenize T i (token # rest) tok_to_orig_index orig_to_tok_index all_doc_tokens =
     (let sub_tokens = tokenize T token
      in sub_tokenize T (i + 1) rest
           (tok_to_orig_index @ replicate (length sub_tokens) i)
           (orig_to_tok_index @ [int (length all_doc_tokens)])
           (all_doc_tokens @ sub_tokens))"

text \<open>The sub-token positions of the answer, refined by \<open>_improve_answer_span\<close>.\<close>

definition tok_answer_span ::
  "tokenizer \<Rightarrow> SquadExample \<Rightarrow> int list \<Rightarrow> pystr list \<Rightarrow> error + (int \<times> int)" where
  "tok_answer_span T example orig_to_tok_index all_doc_tokens =
     (case py_index orig_to_tok_index (ex_start_position example) of
        Inl e \<Rightarrow> Inl e
      | Inr tok_start_position \<Rightarrow>
          (case (if ex_end_position example < int (length (ex_doc_tokens example)) - 1
                 then (case py_index orig_to_tok_index (ex_end_position example + 1) of
                         Inl e \<Rightarrow> Inl e
                       | Inr v \<Rightarrow> Inr (v - 1))
                 else Inr (int (length all_doc_tokens) - 1)) of
             Inl e \<Rightarrow> Inl e
           | Inr tok_end_position \<Rightarrow>
               (case ex_answer_text example of
                  None \<Rightarrow> Inl TypeError
                | Some a \<Rightarrow>
                    Inr (improve_answer_span all_doc_tokens tok_start_position
                           tok_end_position T a))))"

text \<open>The loop \<open>for i in range(paragraph_len)\<close> that fills \<open>token_to_orig_map\<close>.\<close>

fun token_to_orig_loop ::
  "bool \<Rightarrow> int \<Rightarrow> int \<Rightarrow> int list \<Rightarrow> int \<Rightarrow> nat list \<Rightarrow> (int \<times> int) list
     \<Rightarrow> error + (int \<times> int) list" where
  "token_to_orig_loop sequence_a_is_doc query_len sequence_added_tokens tok_to_orig_index
       span_offset [] token_to_orig_map = Inr token_to_orig_map"
| "token_to_orig_loop sequence_a_is_doc query_len sequence_added_tokens tok_to_orig_index
       span_offset (i # rest) token_to_orig_map =
     (let index = (if \<not> sequence_a_is_doc then query_len + sequence_added_tokens + int i
                   else int i)
      in case py_index tok_to_orig_index (span_offset + int i) of
           Inl e \<Rightarrow> Inl e
         | Inr v \<Rightarrow>
             token_to_orig_loop sequence_a_is_doc query_len sequence_added_tokens
               tok_to_orig_index span_offset rest (AList.update index v token_to_orig_map))"

text \<open>One pass of the \<open>while\<close> loop up to \<open>spans.append(encoded_dict)\<close>.\<close>

definition make_span ::
  "tokenizer \<Rightarrow> int \<Rightarrow> int \<Rightarrow> bool \<Rightarrow> pystr list \<Rightarrow> int list \<Rightarrow> int list \<Rightarrow> span list
     \<Rightarrow> pyseq \<Rightarrow> error + span" where
  "make_span T max_seq_length doc_stride sequence_a_is_doc all_doc_tokens tok_to_orig_index
       truncated_query spans span_doc_tokens =
     (let sequence_added_tokens = max_len T - max_len_single_sentence T;
          sequence_pair_added_tokens = max_len T - max_len_sentences_pair T;
          encoded_dict =
            encode_plus T
              (if \<not> sequence_a_is_doc then Ids truncated_query else span_doc_tokens)
              (if \<not> sequence_a_is_doc then span_doc_tokens else Ids truncated_query)
              max_seq_length
              (max_seq_length - doc_stride - int (length truncated_query)
                 - sequence_pair_added_tokens)
              (if \<not> sequence_a_is_doc then OnlySecond else OnlyFirst);
          paragraph_len =
            min (int (length all_doc_tokens) - int (length spans) * doc_stride)
                (max_seq_length - int (length truncated_query) - sequence_pair_added_tokens);
          non_padded_ids =
            (if pad_token_id T \<in> set (input_ids encoded_dict)
             then takeWhile (\<lambda>x. x \<noteq> pad_token_id T) (input_ids encoded_dict)
             else input_ids encoded_dict);
          tokens = convert_ids_to_tokens T non_padded_ids
      in case token_to_orig_loop sequence_a_is_doc (int (length truncated_query))
                sequence_added_tokens tok_to_orig_index (int (length spans) * doc_stride)
                [0..<nat paragraph_len] [] of
           Inl e \<Rightarrow> Inl e
         | Inr token_to_orig_map \<Rightarrow>
             Inr \<lparr> sp_input_ids = input_ids encoded_dict,
                   sp_token_type_ids = token_type_ids encoded_dict,
                   sp_attention_mask = attention_mask encoded_dict,
                   sp_overflowing_tokens = overflowing_tokens encoded_dict,
                   sp_paragraph_len = paragraph_len,
                   sp_tokens = tokens,
                   sp_token_to_orig_map = token_to_orig_map,
                   sp_truncated_query_with_special_tokens_length =
                     int (length truncated_query) + sequence_added_tokens,
                   sp_token_is_max_context = [],
                   sp_start = int (length spans) * doc_stride,
                   sp_length = paragraph_len \<rparr>)"

text \<open>
  The \<open>while\<close> loop. With \<open>doc_stride \<le> 0\<close> and a tokenizer that always reports overflow
  it does not end: the result \<open>None\<close> stands for a loop that never returns.
\<close>

partial_function (option) build_spans ::
  "tokenizer \<Rightarrow> int \<Rightarrow> int \<Rightarrow> bool \<Rightarrow> pystr list \<Rightarrow> int list \<Rightarrow> int list \<Rightarrow> span list
     \<Rightarrow> pyseq \<Rightarrow> (error + span list) option" where
  "build_spans T max_seq_length doc_stride sequence_a_is_doc all_doc_tokens tok_to_orig_index
       truncated_query spans span_doc_tokens =
     (if int (length spans) * doc_stride < int (length all_doc_tokens) then
        (case make_span T max_seq_length doc_stride sequence_a_is_doc all_doc_tokens
                tok_to_orig_index truncated_query spans span_doc_tokens of
           Inl e \<Rightarrow> Some (Inl e)
         | Inr encoded_dict \<Rightarrow>
             (case sp_overflowing_tokens encoded_dict of
                None \<Rightarrow> Some (Inr (spans @ [encoded_dict]))
              | Some overflow \<Rightarrow>
                  build_spans T max_seq_length doc_stride sequence_a_is_doc all_doc_tokens
                    tok_to_orig_index truncated_query (spans @ [encoded_dict]) overflow))
      else Some (Inr spans))"

declare build_spans.simps [code]

text \<open>
  The two loops that fill \<open>token_is_max_context\<close> of every span. The dictionaries of the
  list are distinct objects, so the assignment changes the span at \<open>doc_span_index\<close> only.
\<close>

definition mark_position :: "'f float_arith \<Rightarrow> int \<Rightarrow> bool \<Rightarrow> nat \<Rightarrow> nat \<Rightarrow> span list \<Rightarrow> span list" where
  "mark_position F doc_stride sequence_a_is_doc doc_span_index j spans =
     (let is_max_context =
            new_check_is_max_context F spans (int doc_span_index)
              (int doc_span_index * doc_stride + int j);
          index = (if sequence_a_is_doc then int j
                   else sp_truncated_query_with_special_tokens_length (spans ! doc_span_index)
                          + int j)
      in spans[doc_span_index := (spans ! doc_span_index)
                \<lparr> sp_token_is_max_context :=
                    AList.update index is_max_context
                      (sp_token_is_max_context (spans ! doc_span_index)) \<rparr>])"

definition mark_max_context :: "'f float_arith \<Rightarrow> int \<Rightarrow> bool \<Rightarrow> span list \<Rightarrow> span list" where
  "mark_max_context F doc_stride sequence_a_is_doc spans =
     fold (\<lambda>doc_span_index sps.
             fold (mark_position F doc_stride sequence_a_is_doc doc_span_index)
               [0..<nat (sp_paragraph_len (sps ! doc_span_index))] sps)
       [0..<length spans] spans"

text \<open>
  The probability mask. The array operations are written on lists of integers; the
  values of \<open>token_type_ids\<close> are segment ids, far from the bounds of the array's 64-bit
  elements. Assigning through an index beyond the end of the array raises \<open>IndexError\<close>.
\<close>

definition p_mask_of :: "tokenizer \<Rightarrow> bool \<Rightarrow> span \<Rightarrow> nat \<Rightarrow> error + int list" where
  "p_mask_of T sequence_a_is_doc sp cls_index =
     (let p0 = map (\<lambda>x. min x 1) (sp_token_type_ids sp);
          p1 = (if \<not> sequence_a_is_doc then map (\<lambda>x. 1 - x) p0 else p0);
          sep_positions = filter (\<lambda>i. sp_input_ids sp ! i = sep_token_id T)
                            [0..<length (sp_input_ids sp)]
      in if \<exists>i \<in> set sep_positions. length p1 \<le> i then Inl IndexError
         else (let p2 = fold (\<lambda>i p. p[i := 1]) sep_positions p1
               in if length p2 \<le> cls_index then Inl IndexError
                  else Inr (p2[cls_index := 0])))"

text \<open>
  The answer positions of a window: \<open>(start_position, end_position, span_is_impossible)\<close>.
  \<open>tok_start_position\<close> and \<open>tok_end_position\<close> are read only when training on an example
  that is not impossible, which is when they have been assigned.
\<close>

definition span_answer_positions ::
  "bool \<Rightarrow> bool \<Rightarrow> bool \<Rightarrow> int \<Rightarrow> int \<Rightarrow> int \<Rightarrow> int \<Rightarrow> span \<Rightarrow> int
     \<Rightarrow> int \<times> int \<times> bool" where
  "span_answer_positions is_training sequence_a_is_doc example_is_impossible
       tok_start_position tok_end_position query_len sequence_added_tokens sp cls_index =
     (let span_is_impossible = example_is_impossible
      in if is_training \<and> \<not> span_is_impossible then
           (let doc_start = sp_start sp;
                doc_end = sp_start sp + sp_length sp - 1;
                out_of_span = \<not> (tok_start_position \<ge> doc_start \<and> tok_end_position \<le> doc_end)
            in if out_of_span then (cls_index, cls_index, True)
               else (let doc_offset = (if sequence_a_is_doc then 0
                                       else query_len + sequence_added_tokens)
                     in (tok_start_position - doc_start + doc_offset,
                         tok_end_position - doc_start + doc_offset,
                         span_is_impossible)))
         else (0, 0, span_is_impossible))"

text \<open>The body of \<open>for span in spans\<close>: the feature record of one window.\<close>

definition span_features ::
  "tokenizer \<Rightarrow> bool \<Rightarrow> bool \<Rightarrow> SquadExample \<Rightarrow> int \<Rightarrow> int \<times> int \<Rightarrow> int list \<Rightarrow> span \<Rightarrow> int
     \<Rightarrow> error + SquadFeatures" where
  "span_features T is_training sequence_a_is_doc example example_index tok_span
       truncated_query sp unique_id =
     (case list_index (sp_input_ids sp) (cls_token_id T) of
        Inl e \<Rightarrow> Inl e
      | Inr cls_index \<Rightarrow>
          (case p_mask_of T sequence_a_is_doc sp cls_index of
             Inl e \<Rightarrow> Inl e
           | Inr p_mask \<Rightarrow>
               (let positions =
                      span_answer_positions is_training sequence_a_is_doc
                        (ex_is_impossible example) (fst tok_span) (snd tok_span)
                        (int (length truncated_query))
                        (max_len T - max_len_single_sentence T) sp (int cls_index)
                in Inr \<lparr> f_input_ids = sp_input_ids sp,
                         f_attention_mask = sp_attention_mask sp,
                         f_token_type_ids = sp_token_type_ids sp,
                         f_cls_index = int cls_index,
                         f_p_mask = p_mask,
                         f_example_index = example_index,
                         f_unique_id = unique_id,
                         f_paragraph_len = sp_paragraph_len sp,
                         f_token_is_max_context = sp_token_is_max_context sp,
                         f_tokens = sp_tokens sp,
                         f_token_to_orig_map = sp_token_to_orig_map sp,
                         f_start_position = fst positions,
                         f_end_position = fst (snd positions) \<rparr>)))"

text \<open>The loop \<open>for span in spans\<close>; its state is \<open>features\<close> and \<open>unique_id\<close>.\<close>

fun features_loop ::
  "tokenizer \<Rightarrow> bool \<Rightarrow> bool \<Rightarrow> SquadExample \<Rightarrow> int \<Rightarrow> int \<times> int \<Rightarrow> int list \<Rightarrow> span list
     \<Rightarrow> SquadFeatures list \<Rightarrow> int \<Rightarrow> error + (SquadFeatures list \<times> int)" where
  "features_loop T is_training sequence_a_is_doc example example_index tok_span
       truncated_query [] features unique_id = Inr (features, unique_id)"
| "features_loop T is_training sequence_a_is_doc example example_index tok_span
       truncated_query (sp # rest) features unique_id =
     (case span_features T is_training sequence_a_is_doc example example_index tok_span
             truncated_query sp unique_id of
        Inl e \<Rightarrow> Inl e
      | Inr feature \<Rightarrow>
          features_loop T is_training sequence_a_is_doc example example_index tok_span
            truncated_query rest (features @ [feature]) (unique_id + 1))"

text \<open>
  The body of the loop over the examples. \<open>continue\<close> leaves the state as it is.
\<close>

definition convert_example ::
  "(pystr \<Rightarrow> pystr list) \<Rightarrow> tokenizer \<Rightarrow> 'f float_arith \<Rightarrow> int \<Rightarrow> int \<Rightarrow> int \<Rightarrow> bool \<Rightarrow> bool
     \<Rightarrow> int \<Rightarrow> SquadExample \<Rightarrow> SquadFeatures list \<Rightarrow> int
     \<Rightarrow> (error + (SquadFeatures list \<times> int)) option" where
  "convert_example whitespace_tokenize T F max_seq_length doc_stride max_query_length
       is_training sequence_a_is_doc example_index example features unique_id =
     (case (if is_training \<and> \<not> ex_is_impossible example
            then answer_is_found whitespace_tokenize example else Inr True) of
        Inl e \<Rightarrow> Some (Inl e)
      | Inr found \<Rightarrow>
          if \<not> found then Some (Inr (features, unique_id))
          else
            (case sub_tokenize T 0 (ex_doc_tokens example) [] [] [] of
               (tok_to_orig_index, orig_to_tok_index, all_doc_tokens) \<Rightarrow>
                 (case (if is_training \<and> \<not> ex_is_impossible example
                        then tok_answer_span T example orig_to_tok_index all_doc_tokens
                        else Inr (0, 0)) of
                    Inl e \<Rightarrow> Some (Inl e)
                  | Inr tok_span \<Rightarrow>
                      (let truncated_query =
                             encode T (ex_question_text example) max_query_length
                       in case build_spans T max_seq_length doc_stride sequence_a_is_doc
                                 all_doc_tokens tok_to_orig_index truncated_query []
                                 (Toks all_doc_tokens) of
                            None \<Rightarrow> None
                          | Some (Inl e) \<Rightarrow> Some (Inl e)
                          | Some (Inr spans) \<Rightarrow>
                              Some (features_loop T is_training sequence_a_is_doc example
                                      example_index tok_span truncated_query
                                      (mark_max_context F doc_stride sequence_a_is_doc spans)
                                      features unique_id)))))"

fun examples_loop ::
  "(pystr \<Rightarrow> pystr list) \<Rightarrow> tokenizer \<Rightarrow> 'f float_arith \<Rightarrow> int \<Rightarrow> int \<Rightarrow> int \<Rightarrow> bool \<Rightarrow> bool
     \<Rightarrow> int \<Rightarrow> SquadExample list \<Rightarrow> SquadFeatures list \<Rightarrow> int
     \<Rightarrow> (error + (SquadFeatures list \<times> int)) option" where
  "examples_loop whitespace_tokenize T F max_seq_length doc_stride max_query_length
       is_training sequence_a_is_doc example_index [] features unique_id =
     Some (Inr (features, unique_id))"
| "examples_loop whitespace_tokenize T F max_seq_length doc_stride max_query_length
       is_training sequence_a_is_doc example_index (example # rest) features unique_id =
     (case convert_example whitespace_tokenize T F max_seq_length doc_stride
             max_query_length is_training sequence_a_is_doc example_index example
             features unique_id of
        None \<Rightarrow> None
      | Some (Inl e) \<Rightarrow> Some (Inl e)
      | Some (Inr (features', unique_id')) \<Rightarrow>
          examples_loop whitespace_tokenize T F max_seq_length doc_stride max_query_length
            is_training sequence_a_is_doc (example_index + 1) rest features' unique_id')"

definition squad_convert_examples_to_features ::
  "(pystr \<Rightarrow> pystr list) \<Rightarrow> 'f float_arith \<Rightarrow> SquadExample list \<Rightarrow> tokenizer \<Rightarrow> int \<Rightarrow> int
     \<Rightarrow> int \<Rightarrow> bool \<Rightarrow> bool \<Rightarrow> (error + SquadFeatures list) option" where
  "squad_convert_examples_to_features whitespace_tokenize F examples T max_seq_length
       doc_stride max_query_length is_training sequence_a_is_doc =
     (case examples_loop whitespace_tokenize T F max_seq_length doc_stride max_query_length
             is_training sequence_a_is_doc 0 examples [] 1000000000 of
        None \<Rightarrow> None
      | Some (Inl e) \<Rightarrow> Some (Inl e)
      | Some (Inr (features, unique_id)) \<Rightarrow> Some (Inr features))"

text \<open>The indices \<open>i\<close> for which \<open>xs[i]\<close> does not raise.\<close>

definition valid_index :: "'a list \<Rightarrow> int \<Rightarrow> bool" where
  "valid_index xs i \<longleftrightarrow> - int (length xs) \<le> i \<and> i < int (length xs)"

text \<open>
  For the proofs: what the claims say of the mask of one feature record, the state of the
  loop over the examples after some passes (records appended, identifiers consecutive),
  and the two ways a stretch of that loop is continued or ended.
\<close>

definition mask_ok :: "tokenizer \<Rightarrow> SquadFeatures \<Rightarrow> bool" where
  "mask_ok T f \<longleftrightarrow>
     py_index (f_p_mask f) (f_cls_index f) = Inr 0
     \<and> (\<forall>i<length (f_input_ids f).
           int i \<noteq> f_cls_index f \<and> f_input_ids f ! i = sep_token_id T \<longrightarrow>
           py_index (f_p_mask f) (int i) = Inr 1)
     \<and> (cls_token_id T \<noteq> sep_token_id T \<longrightarrow>
          (\<forall>i<length (f_input_ids f). f_input_ids f ! i = sep_token_id T \<longrightarrow>
             py_index (f_p_mask f) (int i) = Inr 1))"

definition appended_ok ::
  "tokenizer \<Rightarrow> SquadFeatures list \<Rightarrow> int \<Rightarrow> SquadFeatures list \<Rightarrow> int \<Rightarrow> bool" where
  "appended_ok T features uid features' uid' \<longleftrightarrow>
     (\<exists>new. features' = features @ new \<and> uid' = uid + int (length new)
        \<and> map f_unique_id new = map (\<lambda>k. uid + int k) [0..<length new]
        \<and> (\<forall>f\<in>set new. mask_ok T f))"

definition continue_loop ::
  "(error + ('s \<times> int)) option \<Rightarrow> ('s \<Rightarrow> int \<Rightarrow> (error + ('s \<times> int)) option)
     \<Rightarrow> (error + ('s \<times> int)) option" where
  "continue_loop r k =
     (case r of None \<Rightarrow> None | Some (Inl e) \<Rightarrow> Some (Inl e)
      | Some (Inr (features, unique_id)) \<Rightarrow> k features unique_id)"

definition returned :: "(error + ('s \<times> int)) option \<Rightarrow> (error + 's) option" where
  "returned r =
     (case r of None \<Rightarrow> None | Some (Inl e) \<Rightarrow> Some (Inl e)
      | Some (Inr (features, unique_id)) \<Rightarrow> Some (Inr features))"

section \<open>Concrete values for evaluation\<close>

text \<open>
  A tokenizer that keeps every word as one token, exact arithmetic on scores scaled by
  100 in place of floating point, and a window with a given start and length.
\<close>

definition whole_word_tokenizer :: tokenizer where
  "whole_word_tokenizer =
     \<lparr> tokenize = (\<lambda>s. [s]), encode = (\<lambda>s n. take (nat n) (map int s)),
       encode_plus = (\<lambda>a b m st tr. \<lparr> input_ids = [], token_type_ids = [],
                                       attention_mask = [], overflowing_tokens = None \<rparr>),
       convert_ids_to_tokens = (\<lambda>ids. map (\<lambda>i. [nat i]) ids),
       pad_token_id = 0, sep_token_id = 2, cls_token_id = 1,
       max_len = 512, max_len_single_sentence = 510, max_len_sentences_pair = 509 \<rparr>"

definition scaled_arith :: "int float_arith" where
  "scaled_arith = \<lparr> times_0_01 = (\<lambda>n. n), int_plus = (\<lambda>m x. 100 * m + x),
                     greater = (\<lambda>x y. x > y) \<rparr>"

definition window :: "int \<Rightarrow> int \<Rightarrow> span" where
  "window s l = \<lparr> sp_input_ids = [], sp_token_type_ids = [], sp_attention_mask = [],
                  sp_overflowing_tokens = None, sp_paragraph_len = l, sp_tokens = [],
                  sp_token_to_orig_map = [], sp_truncated_query_with_special_tokens_length = 0,
                  sp_token_is_max_context = [], sp_start = s, sp_length = l \<rparr>"

text \<open>
  A small tokenizer with classification id \<open>cls\<close> and separator id \<open>sep\<close>: it encodes
  \<open>cls, first, sep, second, sep\<close>, truncates the second sequence to the room left, pads
  with 0 and reports the rest as overflow. A stand-in for \<open>whitespace_tokenize\<close>, a
  training input of three questions, of which the second has an answer text that is not
  in the context, the examples read from it, and views of a feature record.
\<close>

definition seq_ids :: "pyseq \<Rightarrow> int list" where
  "seq_ids s = (case s of Ids xs \<Rightarrow> xs | Toks ts \<Rightarrow> map (\<lambda>t. 1000 + int (length t)) ts)"

definition toy_encode_plus ::
  "int \<Rightarrow> int \<Rightarrow> pyseq \<Rightarrow> pyseq \<Rightarrow> int \<Rightarrow> int \<Rightarrow> truncation \<Rightarrow> encoded" where
  "toy_encode_plus cls sep a b max_length stride trunc =
     (let q = seq_ids a; d = seq_ids b;
          budget = nat (max_length - int (length q) - 3);
          window = take budget d;
          ids = [cls] @ q @ [sep] @ window @ [sep];
          padding = replicate (nat max_length - length ids) 0
      in \<lparr> input_ids = ids @ padding,
            token_type_ids = replicate (length q + 2) 0 @ replicate (length window + 1) 1
                               @ padding,
            attention_mask = replicate (length ids) 1 @ padding,
            overflowing_tokens =
              (if budget < length d then Some (Ids (drop (budget - nat stride) d))
               else None) \<rparr>)"

definition toy_tokenizer :: "int \<Rightarrow> int \<Rightarrow> tokenizer" where
  "toy_tokenizer cls sep =
     \<lparr> tokenize = (\<lambda>s. [s]), encode = (\<lambda>s n. take (nat n) (map int s)),
       encode_plus = toy_encode_plus cls sep,
       convert_ids_to_tokens = (\<lambda>ids. map (\<lambda>i. [nat i]) ids),
       pad_token_id = 0, sep_token_id = sep, cls_token_id = cls,
       max_len = 512, max_len_single_sentence = 510, max_len_sentences_pair = 509 \<rparr>"

definition split_words :: "pystr \<Rightarrow> pystr list" where
  "split_words s = (case split_context s [] [] True of Inl e \<Rightarrow> [] | Inr r \<Rightarrow> fst r)"

definition training_data :: "entry list" where
  "training_data =
     [\<lparr> entry_title = str ''t'',
         entry_paragraphs =
           [\<lparr> par_context = str ''a b c d'',
               par_qas = [\<lparr> qa_id = str ''1'', qa_question = str ''q'',
                             qa_is_impossible = None,
                             qa_answers = [\<lparr> ans_text = str ''c'', ans_answer_start = 4 \<rparr>] \<rparr>,
                          \<lparr> qa_id = str ''2'', qa_question = str ''q'',
                             qa_is_impossible = None,
                             qa_answers = [\<lparr> ans_text = str ''x'', ans_answer_start = 4 \<rparr>] \<rparr>,
                          \<lparr> qa_id = str ''3'', qa_question = str ''q'',
                             qa_is_impossible = Some False,
                             qa_answers = [\<lparr> ans_text = str ''a'', ans_answer_start = 0 \<rparr>] \<rparr>] \<rparr>] \<rparr>]"

definition examples_of :: "error + SquadExample list \<Rightarrow> SquadExample list" where
  "examples_of r = (case r of Inl e \<Rightarrow> [] | Inr examples \<Rightarrow> examples)"

definition training_examples :: "SquadExample list" where
  "training_examples = examples_of (create_examples training_data (str ''train'') None)"

definition dev_examples :: "SquadExample list" where
  "dev_examples = examples_of (create_examples three_questions (str ''dev'') (Some 0))"

definition mask_view :: "SquadFeatures \<Rightarrow> int list \<times> int \<times> int list" where
  "mask_view f = (f_input_ids f, f_cls_index f, f_p_mask f)"

definition on_features :: "(SquadFeatures \<Rightarrow> 'a) \<Rightarrow> (error + SquadFeatures list) option
    \<Rightarrow> (error + 'a list) option" where
  "on_features g r = map_option (map_sum id (map g)) r"

definition feature_view ::
  "SquadFeatures \<Rightarrow> int \<times> int \<times> int \<times> int \<times> int \<times> int list \<times> int list" where
  "feature_view f = (f_unique_id f, f_example_index f, f_start_position f, f_end_position f,
                     f_cls_index f, f_input_ids f, f_p_mask f)"

definition toy_span :: "int \<Rightarrow> int \<Rightarrow> span" where
  "toy_span s l = (window s l) \<lparr> sp_input_ids := [101, 113, 102],
                                  sp_token_type_ids := [0, 0, 0],
                                  sp_attention_mask := [1, 1, 1] \<rparr>"

text \<open>A training example whose answer text \<open>x\<close> is not in its answer token \<open>c\<close>.\<close>

definition mismatched_example :: SquadExample where
  "mismatched_example =
     \<lparr> ex_qas_id = str ''2'', ex_question_text = str ''q'',
       ex_context_text = str ''a b c d'', ex_answer_text = Some (str ''x''),
       ex_title = str ''t'', ex_is_impossible = False,
       ex_start_position = 2, ex_end_position = 2,
       ex_doc_tokens = [str ''a'', str ''b'', str ''c'', str ''d''],
       ex_char_to_word_offset = [0, 0, 1, 1, 2, 2, 3] \<rparr>"

section \<open>Properties of the raw example\<close>

lemma split_context_inv:
  assumes "\<not> prev \<longrightarrow> dt \<noteq> []"
  shows "\<exists>dt' cw'. split_context cs dt cw prev = Inr (dt', cw')
           \<and> length cw' = length cw + length cs
           \<and> take (length cw) cw' = cw
           \<and> length dt \<le> length dt'
           \<and> (\<forall>k<length dt. set (dt ! k) \<subseteq> set (dt' ! k))
           \<and> (\<forall>i<length cs. \<not> is_whitespace (cs ! i) \<longrightarrow>
                  0 \<le> cw' ! (length cw + i) \<and> nat (cw' ! (length cw + i)) < length dt'
                  \<and> cs ! i \<in> set (dt' ! nat (cw' ! (length cw + i))))"
  using assms
proof (induction cs arbitrary: dt cw prev)
  case Nil
  then show ?case by simp
next
  case (Cons c cs)
  define dt1 where "dt1 = (if is_whitespace c then dt else if prev then dt @ [[c]]
                           else butlast dt @ [last dt @ [c]])"
  define cw1 where "cw1 = cw @ [int (length dt1) - 1]"
  define p1 where "p1 = is_whitespace c"
  have step: "split_context (c # cs) dt cw prev = split_context cs dt1 cw1 p1"
    using Cons.prems by (auto simp: dt1_def cw1_def p1_def)
  have inv1: "\<not> p1 \<longrightarrow> dt1 \<noteq> []"
    by (auto simp: dt1_def p1_def)
  have len1: "length dt \<le> length dt1"
    using Cons.prems by (auto simp: dt1_def)
  have mono1: "\<forall>k<length dt. set (dt ! k) \<subseteq> set (dt1 ! k)"
  proof (intro allI impI)
    fix k assume k: "k < length dt"
    show "set (dt ! k) \<subseteq> set (dt1 ! k)"
    proof (cases "is_whitespace c \<or> prev")
      case True
      then show ?thesis using k by (auto simp: dt1_def nth_append)
    next
      case False
      then have ne: "dt \<noteq> []" using Cons.prems by simp
      show ?thesis
      proof (cases "k = length dt - 1")
        case True
        then show ?thesis using False ne
          by (auto simp: dt1_def nth_append last_conv_nth)
      next
        case False
        then show ?thesis using k \<open>\<not> (is_whitespace c \<or> prev)\<close>
          by (auto simp: dt1_def nth_append nth_butlast)
      qed
    qed
  qed
  have cur: "\<not> is_whitespace c \<Longrightarrow> dt1 \<noteq> [] \<and> c \<in> set (dt1 ! (length dt1 - 1))"
    using Cons.prems by (auto simp: dt1_def nth_append)
  from Cons.IH[OF inv1, of cw1] obtain dt' cw' where
    r: "split_context cs dt1 cw1 p1 = Inr (dt', cw')"
    and l: "length cw' = length cw1 + length cs"
    and t: "take (length cw1) cw' = cw1"
    and le: "length dt1 \<le> length dt'"
    and mono: "\<forall>k<length dt1. set (dt1 ! k) \<subseteq> set (dt' ! k)"
    and cov: "\<forall>i<length cs. \<not> is_whitespace (cs ! i) \<longrightarrow>
                  0 \<le> cw' ! (length cw1 + i) \<and> nat (cw' ! (length cw1 + i)) < length dt'
                  \<and> cs ! i \<in> set (dt' ! nat (cw' ! (length cw1 + i)))"
    by blast
  have lcw1: "length cw1 = Suc (length cw)" by (simp add: cw1_def)
  have at0: "cw' ! length cw = int (length dt1) - 1"
  proof -
    have "cw' ! length cw = take (length cw1) cw' ! length cw"
      by (simp add: lcw1)
    also have "\<dots> = cw1 ! length cw" by (simp only: t)
    finally show ?thesis by (simp add: cw1_def)
  qed
  have tk: "take (length cw) cw' = cw"
  proof -
    have "take (length cw) cw' = take (length cw) (take (length cw1) cw')"
      by (simp add: lcw1 min_def)
    also have "\<dots> = take (length cw) cw1" by (simp only: t)
    finally show ?thesis by (simp add: cw1_def)
  qed
  have covers: "\<forall>i<length (c # cs). \<not> is_whitespace ((c # cs) ! i) \<longrightarrow>
                  0 \<le> cw' ! (length cw + i) \<and> nat (cw' ! (length cw + i)) < length dt'
                  \<and> (c # cs) ! i \<in> set (dt' ! nat (cw' ! (length cw + i)))"
  proof (intro allI impI)
    fix i assume i: "i < length (c # cs)" and nw: "\<not> is_whitespace ((c # cs) ! i)"
    show "0 \<le> cw' ! (length cw + i) \<and> nat (cw' ! (length cw + i)) < length dt'
                  \<and> (c # cs) ! i \<in> set (dt' ! nat (cw' ! (length cw + i)))"
    proof (cases i)
      case 0
      with nw have nwc: "\<not> is_whitespace c" by simp
      from cur[OF nwc] have ne: "dt1 \<noteq> []" and cin: "c \<in> set (dt1 ! (length dt1 - 1))"
        by auto
      have idx: "nat (cw' ! length cw) = length dt1 - 1"
        using at0 ne by (cases dt1) auto
      have "set (dt1 ! (length dt1 - 1)) \<subseteq> set (dt' ! (length dt1 - 1))"
        using mono ne by (cases dt1) auto
      then show ?thesis using 0 at0 idx ne le cin by (cases dt1) auto
    next
      case (Suc j)
      then have "j < length cs" "\<not> is_whitespace (cs ! j)" using i nw by auto
      with cov have "0 \<le> cw' ! (length cw1 + j) \<and> nat (cw' ! (length cw1 + j)) < length dt'
                  \<and> cs ! j \<in> set (dt' ! nat (cw' ! (length cw1 + j)))" by blast
      then show ?thesis using Suc by (simp add: lcw1)
    qed
  qed
  have "length dt \<le> length dt'" using len1 le by simp
  moreover have "\<forall>k<length dt. set (dt ! k) \<subseteq> set (dt' ! k)"
    using mono1 mono len1 by (meson order_less_le_trans subset_trans)
  moreover have "length cw' = length cw + length (c # cs)" using l lcw1 by simp
  ultimately show ?case using step r tk covers by auto
qed

lemma split_context_total:
  "\<exists>dt cw. split_context ctx [] [] True = Inr (dt, cw)"
  using split_context_inv[of True "[]" ctx "[]"] by auto

lemma py_index_iff:
  "(\<exists>v. py_index xs i = Inr v) \<longleftrightarrow> - int (length xs) \<le> i \<and> i < int (length xs)"
  by (auto simp: py_index_def Let_def)

text \<open>
  Claim C4. For every context string the constructor's loop ends without an error and
  yields a \<open>char_to_word_offset\<close> with exactly one entry per character of the context;
  for every index \<open>i\<close> whose character is not a separator,
  \<open>doc_tokens[char_to_word_offset[i]]\<close> is a token that contains the character at
  position \<open>i\<close>. Every example constructed from the context holds these two lists.
\<close>

theorem char_to_word_offset_covers:
  "\<exists>dt cw. split_context ctx [] [] True = Inr (dt, cw)
      \<and> length cw = length ctx
      \<and> (\<forall>i<length ctx. \<not> is_whitespace (ctx ! i) \<longrightarrow>
             (\<exists>tok. py_index dt (cw ! i) = Inr tok \<and> ctx ! i \<in> set tok))
      \<and> (\<forall>ex. SquadExample_init qas_id question_text ctx answer_text
                  start_position_character title is_impossible = Inr ex \<longrightarrow>
                ex_doc_tokens ex = dt \<and> ex_char_to_word_offset ex = cw)"
proof -
  from split_context_inv[of True "[]" ctx "[]"] obtain dt cw where
    r: "split_context ctx [] [] True = Inr (dt, cw)"
    and l: "length cw = length ctx"
    and cov: "\<forall>i<length ctx. \<not> is_whitespace (ctx ! i) \<longrightarrow>
                 0 \<le> cw ! i \<and> nat (cw ! i) < length dt \<and> ctx ! i \<in> set (dt ! nat (cw ! i))"
    by auto
  have "\<forall>i<length ctx. \<not> is_whitespace (ctx ! i) \<longrightarrow>
             (\<exists>tok. py_index dt (cw ! i) = Inr tok \<and> ctx ! i \<in> set tok)"
    using cov by (auto simp: py_index_def Let_def)
  moreover have "\<forall>ex. SquadExample_init qas_id question_text ctx answer_text
                  start_position_character title is_impossible = Inr ex \<longrightarrow>
                ex_doc_tokens ex = dt \<and> ex_char_to_word_offset ex = cw"
    using r by (auto simp: SquadExample_init_def Let_def split: option.splits sum.splits if_splits)
  ultimately show ?thesis using r l by blast
qed

theorem char_to_word_offset_covers_witness:
  "\<exists>ex. SquadExample_init [] [] (str ''ab c'') None None [] False = Inr ex
      \<and> length (ex_char_to_word_offset ex) = 4
      \<and> (\<exists>tok. py_index (ex_doc_tokens ex) (ex_char_to_word_offset ex ! 3) = Inr tok
               \<and> 99 \<in> set tok)"
proof -
  obtain ex where ev: "SquadExample_init [] [] (str ''ab c'') None None [] False = Inr ex"
    by (simp add: SquadExample_init_def str_def is_whitespace_def)
  have nw: "\<not> is_whitespace (str ''ab c'' ! 3)" and len: "length (str ''ab c'') = 4"
    and c: "str ''ab c'' ! 3 = 99"
    by (simp_all add: str_def is_whitespace_def)
  from char_to_word_offset_covers[of "str ''ab c''" "[]" "[]" None None "[]" False]
  obtain dt cw where l: "length cw = length (str ''ab c'')"
    and cov: "\<forall>i<length (str ''ab c''). \<not> is_whitespace (str ''ab c'' ! i) \<longrightarrow>
             (\<exists>tok. py_index dt (cw ! i) = Inr tok \<and> str ''ab c'' ! i \<in> set tok)"
    and exs: "\<forall>ex. SquadExample_init [] [] (str ''ab c'') None None [] False = Inr ex \<longrightarrow>
                ex_doc_tokens ex = dt \<and> ex_char_to_word_offset ex = cw"
    by blast
  from exs ev have e: "ex_doc_tokens ex = dt" "ex_char_to_word_offset ex = cw" by auto
  have lt: "3 < length (str ''ab c'')" by (simp add: len)
  from cov[rule_format, OF lt nw]
  obtain tok where "py_index dt (cw ! 3) = Inr tok" "str ''ab c'' ! 3 \<in> set tok"
    by blast
  then show ?thesis using ev e l len c by auto
qed

text \<open>
  Claim C5 says that the constructor never raises. It does: with the context \<open>abc\<close>, the
  answer \<open>abcd\<close> and the start offset 0, the lookup of the answer's last character,
  \<open>char_to_word_offset[3]\<close>, is out of range.
\<close>

theorem SquadExample_init_raises:
  "SquadExample_init [] [] (str ''abc'') (Some (str ''abcd'')) (Some 0) [] False
     = Inl IndexError"
  by (simp add: SquadExample_init_def str_def is_whitespace_def py_index_def)

text \<open>
  Claim C5, amended. The constructor completes exactly when the start character offset
  is absent, or the example is impossible, or the answer text is present and both
  \<open>start_position_character\<close> and \<open>start_position_character + len(answer_text) - 1\<close> are
  valid indices of the context. When the start offset is absent or the example is
  impossible, the start and end word positions are 0.
\<close>

theorem SquadExample_init_completes_iff:
  "((\<exists>ex. SquadExample_init qas_id question_text ctx answer_text
             start_position_character title is_impossible = Inr ex) \<longleftrightarrow>
      (start_position_character = None \<or> is_impossible \<or>
       (\<exists>s a. start_position_character = Some s \<and> answer_text = Some a
              \<and> valid_index ctx s \<and> valid_index ctx (s + int (length a) - 1))))
   \<and> (\<forall>ex. (start_position_character = None \<or> is_impossible) \<longrightarrow>
         SquadExample_init qas_id question_text ctx answer_text
             start_position_character title is_impossible = Inr ex \<longrightarrow>
         ex_start_position ex = 0 \<and> ex_end_position ex = 0)"
proof -
  from split_context_inv[of True "[]" ctx "[]"] obtain dt cw where
    r: "split_context ctx [] [] True = Inr (dt, cw)" and l: "length cw = length ctx"
    by auto
  have v: "\<And>i. (\<exists>v. py_index cw i = Inr v) \<longleftrightarrow> valid_index ctx i"
    using l by (simp add: py_index_iff valid_index_def)
  show ?thesis
  proof (cases start_position_character)
    case None
    then show ?thesis using r by (auto simp: SquadExample_init_def)
  next
    case (Some s)
    show ?thesis
    proof (cases is_impossible)
      case True
      then show ?thesis using r Some by (auto simp: SquadExample_init_def)
    next
      case False
      show ?thesis
      proof (cases "py_index cw s")
        case (Inl e)
        then have "\<not> valid_index ctx s" using v[of s] by auto
        then show ?thesis using r Some False Inl by (auto simp: SquadExample_init_def)
      next
        case (Inr sp)
        then have vs: "valid_index ctx s" using v[of s] by auto
        show ?thesis
        proof (cases answer_text)
          case None
          then show ?thesis using r Some False Inr by (auto simp: SquadExample_init_def)
        next
          case (Some a)
          show ?thesis
          proof (cases "py_index cw (s + int (length a) - 1)")
            case (Inl e)
            then have "\<not> valid_index ctx (s + int (length a) - 1)"
              using v[of "s + int (length a) - 1"] by auto
            then show ?thesis
              using r \<open>start_position_character = Some s\<close> False Inr Some Inl
              by (auto simp: SquadExample_init_def)
          next
            case (Inr ep)
            then have "valid_index ctx (s + int (length a) - 1)"
              using v[of "s + int (length a) - 1"] by auto
            then show ?thesis
              using r \<open>start_position_character = Some s\<close> False \<open>py_index cw s = Inr sp\<close>
                Some Inr vs
              by (auto simp: SquadExample_init_def)
          qed
        qed
      qed
    qed
  qed
qed

theorem SquadExample_init_completes_iff_witness:
  "(\<exists>ex. SquadExample_init [] [] (str ''ab c'') None None [] False = Inr ex
         \<and> ex_start_position ex = 0 \<and> ex_end_position ex = 0)
   \<and> \<not> (\<exists>ex. SquadExample_init [] [] (str ''abc'') (Some (str ''abcd'')) (Some 0) [] False
              = Inr ex)
   \<and> (\<exists>ex. SquadExample_init [] [] (str ''abc'') (Some (str ''bc'')) (Some 1) [] False
              = Inr ex)"
proof -
  note a = SquadExample_init_completes_iff[of "[]" "[]" "str ''ab c''" None None "[]" False]
  from a obtain ex where "SquadExample_init [] [] (str ''ab c'') None None [] False = Inr ex"
    by auto
  with a have "\<exists>ex. SquadExample_init [] [] (str ''ab c'') None None [] False = Inr ex
         \<and> ex_start_position ex = 0 \<and> ex_end_position ex = 0"
    by blast
  then show ?thesis
    using SquadExample_init_completes_iff[of "[]" "[]" "str ''abc''" "Some (str ''abcd'')"
            "Some 0" "[]" False]
      SquadExample_init_completes_iff[of "[]" "[]" "str ''abc''" "Some (str ''bc'')"
            "Some 1" "[]" False]
    by (simp add: valid_index_def str_def)
qed

section \<open>Properties of answer-span refinement\<close>

lemma find_append_case:
  "List.find P (xs @ ys) = (case List.find P xs of Some r \<Rightarrow> Some r | None \<Rightarrow> List.find P ys)"
  by (induction xs) auto

lemma improve_inner_find:
  "improve_inner doc_tokens t s e =
     List.find (\<lambda>r. range_text doc_tokens r = t) (map (\<lambda>e'. (s, e')) (rev [s..e]))"
proof (induction doc_tokens t s e rule: improve_inner.induct)
  case (1 doc_tokens t s e)
  show ?case
  proof (cases "e < s")
    case True
    then show ?thesis by (subst improve_inner.simps) simp
  next
    case False
    then have up: "[s..e] = [s..e - 1] @ [e]" by (simp add: upto_rec2)
    show ?thesis
    proof (cases "join_space (py_slice doc_tokens s (e + 1)) = t")
      case True
      then show ?thesis using False up
        by (subst improve_inner.simps) (simp add: range_text_def)
    next
      case neq: False
      from "1.IH"[OF False neq] show ?thesis using False neq up
        by (subst improve_inner.simps) (simp add: range_text_def)
    qed
  qed
qed

lemma improve_outer_find:
  "improve_outer doc_tokens t e s =
     List.find (\<lambda>r. range_text doc_tokens r = t) (sub_ranges s e)"
proof (induction doc_tokens t e s rule: improve_outer.induct)
  case (1 doc_tokens t e s)
  show ?case
  proof (cases "e < s")
    case True
    then show ?thesis by (subst improve_outer.simps) (simp add: sub_ranges_def)
  next
    case False
    then have up: "[s..e] = s # [s + 1..e]" by (simp add: upto_rec1)
    have sr: "sub_ranges s e = map (\<lambda>e'. (s, e')) (rev [s..e]) @ sub_ranges (s + 1) e"
      unfolding sub_ranges_def by (subst up) simp
    show ?thesis
    proof (cases "improve_inner doc_tokens t s e")
      case None
      from "1.IH"[OF False None] show ?thesis using False None
        by (subst improve_outer.simps)
           (simp add: sr find_append_case improve_inner_find[symmetric])
    next
      case (Some r)
      then show ?thesis using False
        by (subst improve_outer.simps)
           (simp add: sr find_append_case improve_inner_find[symmetric])
    qed
  qed
qed

text \<open>
  Claim C9. \<open>_improve_answer_span\<close> returns the first sub-range, in the order start
  ascending from \<open>input_start\<close> and, for each start, end descending from \<open>input_end\<close>,
  whose space-joined sub-token text equals the space-joined tokenization of the answer
  text; if no sub-range matches it returns \<open>(input_start, input_end)\<close>.
\<close>

theorem improve_answer_span_first_match:
  "improve_answer_span doc_tokens input_start input_end T orig_answer_text =
     spec_improve_answer_span doc_tokens input_start input_end T orig_answer_text"
  by (simp add: improve_answer_span_def spec_improve_answer_span_def improve_outer_find)

theorem improve_answer_span_first_match_witness:
  "improve_answer_span [str ''a'', str ''b'', str ''b'', str ''c''] 0 3
       whole_word_tokenizer (str ''b'') = (1, 1)
   \<and> spec_improve_answer_span [str ''a'', str ''b'', str ''b'', str ''c''] 0 3
       whole_word_tokenizer (str ''b'') = (1, 1)
   \<and> improve_answer_span [str ''a'', str ''b''] 0 1 whole_word_tokenizer (str ''z'') = (0, 1)"
proof -
  have "spec_improve_answer_span [str ''a'', str ''b'', str ''b'', str ''c''] 0 3
       whole_word_tokenizer (str ''b'') = (1, 1)"
    by (simp add: spec_improve_answer_span_def whole_word_tokenizer_def sub_ranges_def
          range_text_def py_slice_def py_clip_def str_def upto_rec1)
  moreover have "spec_improve_answer_span [str ''a'', str ''b''] 0 1
       whole_word_tokenizer (str ''z'') = (0, 1)"
    by (simp add: spec_improve_answer_span_def whole_word_tokenizer_def sub_ranges_def
          range_text_def py_slice_def py_clip_def str_def upto_rec1)
  ultimately show ?thesis
    using improve_answer_span_first_match[of "[str ''a'', str ''b'', str ''b'', str ''c'']" 0 3
            whole_word_tokenizer "str ''b''"]
          improve_answer_span_first_match[of "[str ''a'', str ''b'']" 0 1
            whole_word_tokenizer "str ''z''"]
    by simp
qed

section \<open>Properties of max-context resolution\<close>

lemma max_context_loops_agree:
  "max_context_loop F position span_index (map as_DocSpan doc_spans) best_score best_span_index =
     new_max_context_loop F position span_index doc_spans best_score best_span_index"
  by (induction doc_spans arbitrary: span_index best_score best_span_index)
     (simp_all add: as_DocSpan_def Let_def)

text \<open>
  Claim C10. For every list of spans, every current span index and every position,
  \<open>_check_is_max_context\<close> on the span objects returns the same boolean as
  \<open>_new_check_is_max_context\<close> on the span dictionaries with the same \<open>start\<close> and
  \<open>length\<close>, whatever the floating-point arithmetic is.
\<close>

theorem check_is_max_context_equivalent:
  "check_is_max_context F (map as_DocSpan doc_spans) cur_span_index position =
     new_check_is_max_context F doc_spans cur_span_index position"
  by (simp add: check_is_max_context_def new_check_is_max_context_def max_context_loops_agree)

theorem check_is_max_context_equivalent_witness:
  "check_is_max_context scaled_arith (map as_DocSpan [window 0 5, window 3 5]) 1 4
   \<and> new_check_is_max_context scaled_arith [window 0 5, window 3 5] 1 4
   \<and> \<not> check_is_max_context scaled_arith (map as_DocSpan [window 0 5, window 3 5]) 0 4"
proof -
  have "new_check_is_max_context scaled_arith [window 0 5, window 3 5] 1 4"
    by (simp add: new_check_is_max_context_def scaled_arith_def window_def)
  moreover have "\<not> new_check_is_max_context scaled_arith [window 0 5, window 3 5] 0 4"
    by (simp add: new_check_is_max_context_def scaled_arith_def window_def)
  ultimately show ?thesis
    using check_is_max_context_equivalent[of scaled_arith "[window 0 5, window 3 5]" 1 4]
      check_is_max_context_equivalent[of scaled_arith "[window 0 5, window 3 5]" 0 4]
    by simp
qed

section \<open>Properties of the dataset reader\<close>

lemma qas_loop_flat:
  "qas_loop tr lim title ctx qs exs = flat_loop tr lim (map (\<lambda>q. (title, ctx, q)) qs) exs"
  by (induction qs arbitrary: exs) (auto simp: question_example_def split: sum.splits)

lemma flat_loop_append:
  "flat_loop tr lim (xs @ ys) exs =
     (case flat_loop tr lim xs exs of
        Inl e \<Rightarrow> Inl e
      | Inr (Return r) \<Rightarrow> Inr (Return r)
      | Inr (Next exs') \<Rightarrow> flat_loop tr lim ys exs')"
  by (induction xs arbitrary: exs) (auto split: sum.splits)

lemma paragraphs_loop_flat:
  "paragraphs_loop tr lim title ps exs =
     flat_loop tr lim (concat (map (paragraph_questions title) ps)) exs"
proof (induction ps arbitrary: exs)
  case Nil
  show ?case by simp
next
  case (Cons p ps)
  show ?case
    by (simp add: flat_loop_append qas_loop_flat paragraph_questions_def Cons.IH
             split: sum.splits flow.splits)
qed

lemma entries_loop_flat:
  "entries_loop tr lim es exs = flat_loop tr lim (all_questions es) exs"
proof (induction es arbitrary: exs)
  case Nil
  show ?case by (simp add: all_questions_def)
next
  case (Cons en es)
  have aq: "all_questions (en # es) = entry_questions en @ all_questions es"
    by (simp add: all_questions_def)
  show ?case
    by (simp add: aq flat_loop_append paragraphs_loop_flat entry_questions_def Cons.IH
             split: sum.splits flow.splits)
qed

lemma SquadExample_init_not_ValueError:
  "SquadExample_init a b c d e f g \<noteq> Inl ValueError"
proof -
  obtain dt cw where "split_context c [] [] True = Inr (dt, cw)"
    using split_context_total by blast
  then show ?thesis
    by (auto simp: SquadExample_init_def py_index_def Let_def
             split: option.splits sum.splits if_splits)
qed

lemma question_example_ValueError:
  "question_example tr tq = Inl ValueError \<longleftrightarrow> tr \<and> answer_count_invalid (snd (snd tq))"
  by (cases tq)
     (auto simp: question_example_def qa_example_def answer_count_invalid_def Let_def
                 SquadExample_init_not_ValueError)

lemma question_example_dev: "succeeds (question_example False tq)"
proof -
  obtain title ctx q where tq: "tq = (title, ctx, q)" by (cases tq) auto
  obtain dt cw where "split_context ctx [] [] True = Inr (dt, cw)"
    using split_context_total by blast
  then show ?thesis
    by (simp add: tq question_example_def qa_example_def SquadExample_init_def succeeds_def)
qed

lemma create_examples_flat:
  "create_examples input_data set_type only_first =
     map_sum id flow_value (flat_loop (set_type = str ''train'') only_first
                              (all_questions input_data) [])"
  by (simp add: create_examples_def entries_loop_flat split: sum.splits flow.splits)

lemma flat_loop_ValueError:
  "flat_loop tr lim qs exs = Inl ValueError \<longleftrightarrow>
     tr \<and> (\<exists>k<length qs. answer_count_invalid (snd (snd (qs ! k)))
             \<and> (\<forall>j<k. succeeds (question_example tr (qs ! j)))
             \<and> (case lim of None \<Rightarrow> True
                 | Some n \<Rightarrow> k = 0 \<or> int (length exs + k) \<le> n))"
  (is "?L qs exs \<longleftrightarrow> ?R qs exs")
proof (induction qs arbitrary: exs)
  case Nil
  show ?case by simp
next
  case (Cons tq rest)
  show ?case
  proof (cases "question_example tr tq")
    case (Inl e)
    then have nsucc: "\<not> succeeds (question_example tr tq)" by (simp add: succeeds_def)
    have L: "?L (tq # rest) exs \<longleftrightarrow> tr \<and> answer_count_invalid (snd (snd tq))"
      using Inl question_example_ValueError[of tr tq] by auto
    have R: "?R (tq # rest) exs \<longleftrightarrow> tr \<and> answer_count_invalid (snd (snd tq))"
    proof
      assume r: "?R (tq # rest) exs"
      then obtain k where k: "k < length (tq # rest)"
        "answer_count_invalid (snd (snd ((tq # rest) ! k)))"
        "\<forall>j<k. succeeds (question_example tr ((tq # rest) ! j))" by blast
      have "k = 0"
      proof (rule ccontr)
        assume "k \<noteq> 0"
        then have "0 < k" by simp
        with k(3) have "succeeds (question_example tr ((tq # rest) ! 0))" by blast
        with nsucc show False by simp
      qed
      with k r show "tr \<and> answer_count_invalid (snd (snd tq))" by simp
    next
      assume a: "tr \<and> answer_count_invalid (snd (snd tq))"
      have "0 < length (tq # rest) \<and> answer_count_invalid (snd (snd ((tq # rest) ! 0)))
             \<and> (\<forall>j<(0::nat). succeeds (question_example tr ((tq # rest) ! j)))
             \<and> (case lim of None \<Rightarrow> True
                 | Some n \<Rightarrow> (0::nat) = 0 \<or> int (length exs + 0) \<le> n)"
        using a by (simp split: option.splits)
      then show "?R (tq # rest) exs" using a by blast
    qed
    show ?thesis using L R by simp
  next
    case (Inr ex)
    then have ok: "succeeds (question_example tr tq)" by (simp add: succeeds_def)
    have valid: "\<not> (tr \<and> answer_count_invalid (snd (snd tq)))"
      using Inr question_example_ValueError[of tr tq] by auto
    show ?thesis
    proof (cases "limit_exceeded lim (exs @ [ex])")
      case True
      then obtain n where n: "lim = Some n" "int (length exs) + 1 > n"
        by (auto simp: limit_exceeded_def split: option.splits)
      have "\<not> ?R (tq # rest) exs"
      proof
        assume "?R (tq # rest) exs"
        then obtain k where k: "k < length (tq # rest)"
          "answer_count_invalid (snd (snd ((tq # rest) ! k)))" "tr"
          "k = 0 \<or> int (length exs + k) \<le> n" using n by auto
        show False
        proof (cases k)
          case 0
          with k valid show False by simp
        next
          case (Suc k')
          with k(4) n(2) show False by simp
        qed
      qed
      moreover have "\<not> ?L (tq # rest) exs" using Inr True by simp
      ultimately show ?thesis by blast
    next
      case False
      then have L: "?L (tq # rest) exs \<longleftrightarrow> ?L rest (exs @ [ex])" using Inr by simp
      have lim_ok: "\<And>n. lim = Some n \<Longrightarrow> int (length exs) + 1 \<le> n"
        using False by (auto simp: limit_exceeded_def)
      have R: "?R (tq # rest) exs \<longleftrightarrow> ?R rest (exs @ [ex])"
      proof
        assume r: "?R (tq # rest) exs"
        then obtain k where k: "k < length (tq # rest)"
          "answer_count_invalid (snd (snd ((tq # rest) ! k)))"
          "\<forall>j<k. succeeds (question_example tr ((tq # rest) ! j))"
          "case lim of None \<Rightarrow> True | Some n \<Rightarrow> k = 0 \<or> int (length exs + k) \<le> n"
          and tr: tr by blast
        from k(2) valid tr obtain k' where k': "k = Suc k'" by (cases k) auto
        have "k' < length rest" using k(1) k' by simp
        moreover have "answer_count_invalid (snd (snd (rest ! k')))" using k(2) k' by simp
        moreover have "\<forall>j<k'. succeeds (question_example tr (rest ! j))"
        proof (intro allI impI)
          fix j assume "j < k'"
          then have "Suc j < k" using k' by simp
          with k(3) have "succeeds (question_example tr ((tq # rest) ! Suc j))" by blast
          then show "succeeds (question_example tr (rest ! j))" by simp
        qed
        moreover have "case lim of None \<Rightarrow> True
                       | Some n \<Rightarrow> k' = 0 \<or> int (length (exs @ [ex]) + k') \<le> n"
          using k(4) k' by (auto split: option.splits)
        ultimately show "?R rest (exs @ [ex])" using tr by blast
      next
        assume r: "?R rest (exs @ [ex])"
        then obtain k' where k': "k' < length rest"
          "answer_count_invalid (snd (snd (rest ! k')))"
          "\<forall>j<k'. succeeds (question_example tr (rest ! j))"
          "case lim of None \<Rightarrow> True
           | Some n \<Rightarrow> k' = 0 \<or> int (length (exs @ [ex]) + k') \<le> n"
          and tr: tr by blast
        have "Suc k' < length (tq # rest)" using k'(1) by simp
        moreover have "answer_count_invalid (snd (snd ((tq # rest) ! Suc k')))"
          using k'(2) by simp
        moreover have "\<forall>j<Suc k'. succeeds (question_example tr ((tq # rest) ! j))"
        proof (intro allI impI)
          fix j assume j: "j < Suc k'"
          show "succeeds (question_example tr ((tq # rest) ! j))"
          proof (cases j)
            case 0
            then show ?thesis using ok by simp
          next
            case (Suc i)
            then have "i < k'" using j by simp
            with k'(3) show ?thesis using Suc by simp
          qed
        qed
        moreover have "case lim of None \<Rightarrow> True
                       | Some n \<Rightarrow> Suc k' = 0 \<or> int (length exs + Suc k') \<le> n"
          using k'(4) lim_ok by (auto split: option.splits)
        ultimately show "?R (tq # rest) exs" using tr by blast
      qed
      show ?thesis using L R Cons.IH[of "exs @ [ex]"] by simp
    qed
  qed
qed

lemma flat_loop_result:
  "flat_loop tr lim qs exs = Inr r \<Longrightarrow>
     \<exists>new. flow_value r = exs @ new
         \<and> map Inr new = map (question_example tr) (take (length new) qs)
         \<and> length new = (case lim of None \<Rightarrow> length qs
                         | Some n \<Rightarrow> min (length qs) (nat (max (n + 1 - int (length exs)) 1)))"
proof (induction qs arbitrary: exs)
  case Nil
  then show ?case by (auto split: option.splits)
next
  case (Cons tq rest)
  from Cons.prems obtain ex where ex: "question_example tr tq = Inr ex"
    by (cases "question_example tr tq") auto
  show ?case
  proof (cases "limit_exceeded lim (exs @ [ex])")
    case True
    then obtain n where n: "lim = Some n" "int (length exs) + 1 > n"
      by (auto simp: limit_exceeded_def split: option.splits)
    from Cons.prems ex True have r: "r = Return (exs @ [ex])" by simp
    have "flow_value r = exs @ [ex]
         \<and> map Inr [ex] = map (question_example tr) (take (length [ex]) (tq # rest))
         \<and> length [ex] = (case lim of None \<Rightarrow> length (tq # rest)
              | Some n \<Rightarrow> min (length (tq # rest)) (nat (max (n + 1 - int (length exs)) 1)))"
      using r ex n by (simp add: max_def)
    then show ?thesis by blast
  next
    case False
    with Cons.prems ex have "flat_loop tr lim rest (exs @ [ex]) = Inr r" by simp
    from Cons.IH[OF this] obtain new where new: "flow_value r = (exs @ [ex]) @ new"
      "map Inr new = map (question_example tr) (take (length new) rest)"
      "length new = (case lim of None \<Rightarrow> length rest
          | Some n \<Rightarrow> min (length rest) (nat (max (n + 1 - int (length (exs @ [ex]))) 1)))"
      by blast
    have lim_ok: "\<And>n. lim = Some n \<Longrightarrow> int (length exs) + 1 \<le> n"
      using False by (auto simp: limit_exceeded_def)
    have len: "length (ex # new) = (case lim of None \<Rightarrow> length (tq # rest)
              | Some n \<Rightarrow> min (length (tq # rest)) (nat (max (n + 1 - int (length exs)) 1)))"
    proof (cases lim)
      case None
      then show ?thesis using new(3) by simp
    next
      case (Some n)
      from lim_ok[OF Some] have le: "int (length exs) + 1 \<le> n" .
      have m1: "max (n + 1 - int (length (exs @ [ex]))) 1 = n - int (length exs)"
        using le by (simp add: max_def)
      have m2: "nat (max (n + 1 - int (length exs)) 1) = Suc (nat (n - int (length exs)))"
        using le by (simp add: max_def nat_add_distrib)
      have "length new = min (length rest) (nat (n - int (length exs)))"
        using new(3) Some by (simp only: m1 option.case)
      then show ?thesis using Some by (simp only: m2 option.case) simp
    qed
    have "flow_value r = exs @ (ex # new)" using new(1) by simp
    moreover have "map Inr (ex # new) =
                     map (question_example tr) (take (length (ex # new)) (tq # rest))"
      using new(2) ex by simp
    ultimately show ?thesis using len by blast
  qed
qed

text \<open>
  Claim C7. \<open>_create_examples\<close> raises the invalid-input error (\<open>ValueError\<close>) if and only
  if it is building training examples (\<open>set_type\<close> is \<open>train\<close>) and encounters a question
  whose \<open>is_impossible\<close> flag is false or absent and whose \<open>answers\<close> array does not have
  exactly one entry; with any other \<open>set_type\<close> it never raises, for any answer count.
\<close>

theorem create_examples_ValueError_iff:
  "(create_examples input_data set_type only_first = Inl ValueError \<longleftrightarrow>
      set_type = str ''train''
      \<and> (\<exists>k<length (all_questions input_data).
            answer_count_invalid (snd (snd (all_questions input_data ! k)))
            \<and> encountered True only_first (all_questions input_data) k))
   \<and> (set_type \<noteq> str ''train'' \<longrightarrow>
        succeeds (create_examples input_data set_type only_first))"
proof
  let ?qs = "all_questions input_data"
  have c: "create_examples input_data set_type only_first = Inl ValueError \<longleftrightarrow>
          flat_loop (set_type = str ''train'') only_first ?qs [] = Inl ValueError"
    by (cases "flat_loop (set_type = str ''train'') only_first ?qs []")
       (simp_all add: create_examples_flat)
  have f: "flat_loop tr only_first ?qs [] = Inl ValueError \<longleftrightarrow>
             tr \<and> (\<exists>k<length ?qs. answer_count_invalid (snd (snd (?qs ! k)))
                     \<and> encountered tr only_first ?qs k)" for tr
    using flat_loop_ValueError[of tr only_first ?qs "[]"]
    by (simp add: encountered_def cong: option.case_cong)
  show "create_examples input_data set_type only_first = Inl ValueError \<longleftrightarrow>
      set_type = str ''train''
      \<and> (\<exists>k<length ?qs. answer_count_invalid (snd (snd (?qs ! k)))
            \<and> encountered True only_first ?qs k)"
  proof (cases "set_type = str ''train''")
    case True
    then show ?thesis using c f[of True] by simp
  next
    case False
    then show ?thesis using c f[of False] by simp
  qed
next
  show "set_type \<noteq> str ''train'' \<longrightarrow>
        succeeds (create_examples input_data set_type only_first)"
  proof
    assume dev: "set_type \<noteq> str ''train''"
    have "\<And>exs. succeeds (flat_loop False only_first qs exs)" for qs
    proof (induction qs)
      case Nil
      show ?case by (simp add: succeeds_def)
    next
      case (Cons tq rest)
      have "succeeds (question_example False tq)" by (rule question_example_dev)
      then obtain ex where "question_example False tq = Inr ex"
        by (cases "question_example False tq") (auto simp: succeeds_def)
      then show ?case using Cons.IH by (simp add: succeeds_def)
    qed
    then have "succeeds (flat_loop False only_first (all_questions input_data) [])" .
    then show "succeeds (create_examples input_data set_type only_first)"
      using dev
      by (cases "flat_loop False only_first (all_questions input_data) []")
         (simp_all add: create_examples_flat succeeds_def)
  qed
qed

text \<open>
  Claim C6, amended. With a limit \<open>only_first\<close> the count of accumulated examples is
  compared with the limit after every appended example, so the function returns the
  examples of the first \<open>min(total, max(only_first + 1, 1))\<close> questions: it exceeds a
  non-negative limit by exactly one example whenever more questions are available.
\<close>

theorem create_examples_limit_count:
  "create_examples input_data set_type (Some n) = Inr examples \<Longrightarrow>
     length examples = min (length (all_questions input_data)) (nat (max (n + 1) 1))
     \<and> map Inr examples =
         map (question_example (set_type = str ''train''))
           (take (length examples) (all_questions input_data))"
proof -
  assume a: "create_examples input_data set_type (Some n) = Inr examples"
  then obtain r where r: "flat_loop (set_type = str ''train'') (Some n)
                             (all_questions input_data) [] = Inr r"
    and v: "flow_value r = examples"
    by (cases "flat_loop (set_type = str ''train'') (Some n) (all_questions input_data) []")
       (auto simp: create_examples_flat)
  from flat_loop_result[OF r] v show ?thesis by auto
qed

lemmas create_examples_eval =
  create_examples_def spec_create_examples_def three_questions_def count_of_def
  qa_example_def qa_is_impossible_or_default_def limit_exceeded_def SquadExample_init_def
  str_def is_whitespace_def py_index_def

text \<open>
  Claim C6 says that the limit is checked only when a whole paragraph's questions are
  done. On one paragraph of three questions with the limit 0 the code returns one
  example, where a check after the paragraph would return all three.
\<close>

theorem create_examples_stops_within_paragraph:
  "count_of (create_examples three_questions (str ''dev'') (Some 0)) = Inr 1
   \<and> count_of (spec_create_examples three_questions (str ''dev'') (Some 0)) = Inr 3"
  by (simp add: create_examples_eval)

theorem create_examples_limit_count_witness:
  "count_of (create_examples three_questions (str ''dev'') (Some 1)) = Inr 2
   \<and> length (all_questions three_questions) = 3"
proof -
  obtain exs where e: "create_examples three_questions (str ''dev'') (Some 1) = Inr exs"
    by (simp add: create_examples_eval)
  have l: "length (all_questions three_questions) = 3"
    by (simp add: three_questions_def all_questions_def entry_questions_def
          paragraph_questions_def)
  from create_examples_limit_count[OF e] l have "length exs = 2" by simp
  then show ?thesis using e l by (simp add: count_of_def)
qed

theorem create_examples_ValueError_iff_witness:
  "create_examples three_questions (str ''train'') None = Inl ValueError
   \<and> succeeds (create_examples three_questions (str ''dev'') None)"
proof -
  let ?qs = "all_questions three_questions"
  have q: "?qs ! 0 = (str ''t'', str ''ab c'',
                      \<lparr> qa_id = str ''1'', qa_question = str ''q'',
                        qa_is_impossible = None, qa_answers = [] \<rparr>)"
    and l: "0 < length ?qs"
    by (simp_all add: three_questions_def all_questions_def entry_questions_def
          paragraph_questions_def)
  have i: "answer_count_invalid (snd (snd (?qs ! 0)))"
    by (simp add: q answer_count_invalid_def qa_is_impossible_or_default_def)
  have e: "encountered True None ?qs 0" by (simp add: encountered_def)
  have d: "str ''dev'' \<noteq> str ''train''" by (simp add: str_def)
  from l i e have "\<exists>k<length ?qs. answer_count_invalid (snd (snd (?qs ! k)))
                      \<and> encountered True None ?qs k" by blast
  then show ?thesis
    using create_examples_ValueError_iff[of three_questions "str ''train''" None]
      create_examples_ValueError_iff[of three_questions "str ''dev''" None] d
    by simp
qed

section \<open>Properties of the feature conversion pipeline\<close>

lemma list_index_props:
  "list_index xs x = Inr c \<Longrightarrow> c < length xs \<and> xs ! c = x"
proof -
  assume a: "list_index xs x = Inr c"
  then have mem: "x \<in> set xs" and c: "c = length (takeWhile (\<lambda>y. y \<noteq> x) xs)"
    by (auto simp: list_index_def split: if_splits)
  from mem have lt: "length (takeWhile (\<lambda>y. y \<noteq> x) xs) < length xs"
    by (induction xs) auto
  from nth_length_takeWhile[OF lt] have "xs ! length (takeWhile (\<lambda>y. y \<noteq> x) xs) = x"
    by simp
  with lt c show ?thesis by simp
qed

lemma fold_assign_length:
  "length (fold (\<lambda>i p. p[i := v]) idxs p) = length p"
  by (induction idxs arbitrary: p) auto

lemma fold_assign_keeps:
  "i < length p \<Longrightarrow> p ! i = v \<Longrightarrow> fold (\<lambda>i p. p[i := v]) idxs p ! i = v"
proof (induction idxs arbitrary: p)
  case Nil
  then show ?case by simp
next
  case (Cons j idxs)
  have "p[j := v] ! i = v" using Cons.prems by (cases "i = j") auto
  with Cons.IH[of "p[j := v]"] Cons.prems show ?case by simp
qed

lemma fold_assign_sets:
  "i \<in> set idxs \<Longrightarrow> i < length p \<Longrightarrow> fold (\<lambda>i p. p[i := v]) idxs p ! i = v"
proof (induction idxs arbitrary: p)
  case Nil
  then show ?case by simp
next
  case (Cons j idxs)
  show ?case
  proof (cases "i = j")
    case True
    then have "p[j := v] ! i = v" using Cons.prems by simp
    then show ?thesis using fold_assign_keeps[of i "p[j := v]" v idxs] Cons.prems by simp
  next
    case False
    then have "i \<in> set idxs" using Cons.prems by simp
    from Cons.IH[OF this, of "p[j := v]"] Cons.prems show ?thesis by simp
  qed
qed

lemma p_mask_of_props:
  assumes "p_mask_of T sad sp cls = Inr p"
  shows "length p = length (sp_token_type_ids sp)"
    and "cls < length p"
    and "p ! cls = 0"
    and "\<And>i. i < length (sp_input_ids sp) \<Longrightarrow> i \<noteq> cls \<Longrightarrow>
              sp_input_ids sp ! i = sep_token_id T \<Longrightarrow> i < length p \<and> p ! i = 1"
proof -
  define p1 where "p1 = (if \<not> sad then map (\<lambda>x. 1 - x) (map (\<lambda>x. min x 1) (sp_token_type_ids sp))
                         else map (\<lambda>x. min x 1) (sp_token_type_ids sp))"
  define seps where "seps = filter (\<lambda>i. sp_input_ids sp ! i = sep_token_id T)
                            [0..<length (sp_input_ids sp)]"
  define p2 where "p2 = fold (\<lambda>i p. p[i := (1::int)]) seps p1"
  have l1: "length p1 = length (sp_token_type_ids sp)" by (simp add: p1_def)
  have l2: "length p2 = length p1" by (simp add: p2_def fold_assign_length)
  from assms have ok1: "\<forall>i\<in>set seps. i < length p1"
    and ok2: "cls < length p2" and p: "p = p2[cls := 0]"
    unfolding p_mask_of_def Let_def p1_def[symmetric] seps_def[symmetric] p2_def[symmetric]
    by (auto split: if_splits)
  show "length p = length (sp_token_type_ids sp)" using p l1 l2 by simp
  show "cls < length p" using p ok2 by simp
  show "p ! cls = 0" using p ok2 by simp
  fix i assume i: "i < length (sp_input_ids sp)" "i \<noteq> cls"
    "sp_input_ids sp ! i = sep_token_id T"
  then have m: "i \<in> set seps" by (simp add: seps_def)
  with ok1 have il: "i < length p1" by blast
  from fold_assign_sets[OF m il, of 1] have "p2 ! i = 1" by (simp add: p2_def)
  then show "i < length p \<and> p ! i = 1" using p il l2 i(2) by simp
qed

lemma span_features_props:
  assumes "span_features T tr sad example idx tok_span tq sp uid = Inr f"
  shows "f_unique_id f = uid" and "f_example_index f = idx" and "mask_ok T f"
proof -
  from assms obtain cls p where c: "list_index (sp_input_ids sp) (cls_token_id T) = Inr cls"
    and p: "p_mask_of T sad sp cls = Inr p"
    and f: "f_input_ids f = sp_input_ids sp" "f_cls_index f = int cls" "f_p_mask f = p"
           "f_unique_id f = uid" "f_example_index f = idx"
    by (auto simp: span_features_def Let_def split: sum.splits)
  show "f_unique_id f = uid" "f_example_index f = idx" using f by auto
  note pm = p_mask_of_props[OF p]
  from list_index_props[OF c] have cl: "cls < length (sp_input_ids sp)"
    "sp_input_ids sp ! cls = cls_token_id T" by auto
  have a: "py_index (f_p_mask f) (f_cls_index f) = Inr 0"
    using pm(2,3) f by (simp add: py_index_def)
  have b: "\<forall>i<length (f_input_ids f).
           int i \<noteq> f_cls_index f \<and> f_input_ids f ! i = sep_token_id T \<longrightarrow>
           py_index (f_p_mask f) (int i) = Inr 1"
    using pm(4) f by (auto simp: py_index_def)
  have "cls_token_id T \<noteq> sep_token_id T \<longrightarrow>
          (\<forall>i<length (f_input_ids f). f_input_ids f ! i = sep_token_id T \<longrightarrow>
             py_index (f_p_mask f) (int i) = Inr 1)"
  proof (intro impI allI)
    fix i assume ne: "cls_token_id T \<noteq> sep_token_id T" and i: "i < length (f_input_ids f)"
      and s: "f_input_ids f ! i = sep_token_id T"
    have "i \<noteq> cls" using cl(2) s ne f(1) by auto
    then show "py_index (f_p_mask f) (int i) = Inr 1" using b i s f(2) by simp
  qed
  with a b show "mask_ok T f" by (simp add: mask_ok_def)
qed

lemma features_loop_props:
  "features_loop T tr sad example idx tok_span tq spans features uid = Inr (features', uid') \<Longrightarrow>
     \<exists>new. features' = features @ new \<and> length new = length spans
        \<and> uid' = uid + int (length spans)
        \<and> (\<forall>k<length spans.
              span_features T tr sad example idx tok_span tq (spans ! k) (uid + int k)
                = Inr (new ! k))"
proof (induction spans arbitrary: features uid)
  case Nil
  then show ?case by simp
next
  case (Cons sp rest)
  from Cons.prems obtain f where
    f: "span_features T tr sad example idx tok_span tq sp uid = Inr f"
    and r: "features_loop T tr sad example idx tok_span tq rest (features @ [f]) (uid + 1)
              = Inr (features', uid')"
    by (auto split: sum.splits)
  from Cons.IH[OF r] obtain new where new: "features' = (features @ [f]) @ new"
    "length new = length rest" "uid' = uid + 1 + int (length rest)"
    "\<forall>k<length rest.
        span_features T tr sad example idx tok_span tq (rest ! k) (uid + 1 + int k)
          = Inr (new ! k)"
    by blast
  have "\<forall>k<length (sp # rest).
          span_features T tr sad example idx tok_span tq ((sp # rest) ! k) (uid + int k)
            = Inr ((f # new) ! k)"
  proof (intro allI impI)
    fix k assume k: "k < length (sp # rest)"
    show "span_features T tr sad example idx tok_span tq ((sp # rest) ! k) (uid + int k)
            = Inr ((f # new) ! k)"
    proof (cases k)
      case 0
      then show ?thesis using f by simp
    next
      case (Suc j)
      then have "j < length rest" using k by simp
      with new(4) have "span_features T tr sad example idx tok_span tq (rest ! j)
                          (uid + 1 + int j) = Inr (new ! j)" by blast
      then show ?thesis using Suc by (simp add: add.assoc)
    qed
  qed
  moreover have "features' = features @ (f # new)" using new(1) by simp
  moreover have "length (f # new) = length (sp # rest)" using new(2) by simp
  moreover have "uid' = uid + int (length (sp # rest))" using new(3) by simp
  ultimately show ?case by blast
qed

lemma upt_split_shift:
  "[0..<a + b] = [0..<a] @ map (\<lambda>k. a + k) [0..<b]"
proof -
  have "[0..<a + b] = [0..<a] @ [a..<a + b]"
    using upt_add_eq_append[of 0 a b] by simp
  moreover have "map (\<lambda>k. a + k) [0..<b] = [a..<a + b]"
    using map_add_upt[of a b] by (simp only: add.commute)
  ultimately show ?thesis by (simp only:)
qed

lemma appended_ok_refl: "appended_ok T features uid features uid"
  by (simp add: appended_ok_def)

lemma appended_ok_trans:
  assumes "appended_ok T f0 u0 f1 u1" "appended_ok T f1 u1 f2 u2"
  shows "appended_ok T f0 u0 f2 u2"
proof -
  from assms obtain n1 n2 where
    a: "f1 = f0 @ n1" "u1 = u0 + int (length n1)"
       "map f_unique_id n1 = map (\<lambda>k. u0 + int k) [0..<length n1]" "\<forall>f\<in>set n1. mask_ok T f"
    and b: "f2 = f1 @ n2" "u2 = u1 + int (length n2)"
       "map f_unique_id n2 = map (\<lambda>k. u1 + int k) [0..<length n2]" "\<forall>f\<in>set n2. mask_ok T f"
    unfolding appended_ok_def by blast
  have "[0..<length n1 + length n2] = [0..<length n1] @ map (\<lambda>k. length n1 + k) [0..<length n2]"
    by (rule upt_split_shift)
  then have "map (\<lambda>k. u0 + int k) [0..<length (n1 @ n2)] =
               map (\<lambda>k. u0 + int k) [0..<length n1] @ map (\<lambda>k. u1 + int k) [0..<length n2]"
    using a(2) by (simp add: o_def add.assoc)
  then have "map f_unique_id (n1 @ n2) = map (\<lambda>k. u0 + int k) [0..<length (n1 @ n2)]"
    using a(3) b(3) by simp
  moreover have "f2 = f0 @ (n1 @ n2)" using a(1) b(1) by simp
  moreover have "u2 = u0 + int (length (n1 @ n2))" using a(2) b(2) by simp
  moreover have "\<forall>f\<in>set (n1 @ n2). mask_ok T f" using a(4) b(4) by auto
  ultimately show ?thesis unfolding appended_ok_def by blast
qed

lemma features_loop_appended:
  assumes "features_loop T tr sad example idx tok_span tq spans features uid = Inr (features', uid')"
  shows "appended_ok T features uid features' uid'"
proof -
  from features_loop_props[OF assms] obtain new where new: "features' = features @ new"
    "length new = length spans" "uid' = uid + int (length spans)"
    "\<forall>k<length spans.
        span_features T tr sad example idx tok_span tq (spans ! k) (uid + int k) = Inr (new ! k)"
    by blast
  have ids: "map f_unique_id new = map (\<lambda>k. uid + int k) [0..<length new]"
  proof (rule nth_equalityI)
    show "length (map f_unique_id new) = length (map (\<lambda>k. uid + int k) [0..<length new])"
      by simp
  next
    fix k assume "k < length (map f_unique_id new)"
    then have k: "k < length spans" using new(2) by simp
    with new(4) have "span_features T tr sad example idx tok_span tq (spans ! k) (uid + int k)
                         = Inr (new ! k)" by blast
    from span_features_props(1)[OF this] k new(2)
    show "map f_unique_id new ! k = map (\<lambda>k. uid + int k) [0..<length new] ! k" by simp
  qed
  have "\<forall>f\<in>set new. mask_ok T f"
  proof
    fix f assume "f \<in> set new"
    then obtain k where k: "k < length new" "new ! k = f" by (auto simp: in_set_conv_nth)
    with new(2,4) have "span_features T tr sad example idx tok_span tq (spans ! k) (uid + int k)
                         = Inr f" by auto
    from span_features_props(3)[OF this] show "mask_ok T f" .
  qed
  with ids new show ?thesis unfolding appended_ok_def by auto
qed

lemma convert_example_cases:
  assumes "convert_example W T F msl ds mql tr sad idx example features uid
             = Some (Inr (features', uid'))"
  shows "(features' = features \<and> uid' = uid)
         \<or> (\<exists>tok_span tq spans.
               features_loop T tr sad example idx tok_span tq spans features uid
                 = Inr (features', uid'))"
proof -
  define chk where "chk = (if tr \<and> \<not> ex_is_impossible example
                           then answer_is_found W example else Inr True)"
  obtain t2o o2t adt where st: "sub_tokenize T 0 (ex_doc_tokens example) [] [] [] = (t2o, o2t, adt)"
    by (cases "sub_tokenize T 0 (ex_doc_tokens example) [] [] []") auto
  define ts where "ts = (if tr \<and> \<not> ex_is_impossible example
                          then tok_answer_span T example o2t adt else Inr (0, 0))"
  define tq where "tq = encode T (ex_question_text example) mql"
  define bs where "bs = build_spans T msl ds sad adt t2o tq [] (Toks adt)"
  have eq: "convert_example W T F msl ds mql tr sad idx example features uid =
     (case chk of Inl e \<Rightarrow> Some (Inl e)
      | Inr found \<Rightarrow>
          if \<not> found then Some (Inr (features, uid))
          else (case ts of Inl e \<Rightarrow> Some (Inl e)
                | Inr tok_span \<Rightarrow>
                    (case bs of None \<Rightarrow> None | Some (Inl e) \<Rightarrow> Some (Inl e)
                     | Some (Inr spans) \<Rightarrow>
                         Some (features_loop T tr sad example idx tok_span tq
                                 (mark_max_context F ds sad spans) features uid))))"
    unfolding convert_example_def chk_def ts_def tq_def bs_def st Let_def prod.case
    by (rule refl)
  show ?thesis
  proof (cases chk)
    case (Inl e)
    with assms eq show ?thesis by simp
  next
    case (Inr found)
    show ?thesis
    proof (cases found)
      case False
      with assms eq Inr show ?thesis by simp
    next
      case True
      show ?thesis
      proof (cases ts)
        case (Inl e)
        with assms eq Inr True show ?thesis by simp
      next
        case tsr: (Inr tok_span)
        show ?thesis
        proof (cases bs)
          case None
          with assms eq Inr True tsr show ?thesis by simp
        next
          case (Some r)
          show ?thesis
          proof (cases r)
            case (Inl e)
            with assms eq Inr True tsr Some show ?thesis by simp
          next
            case spans: (Inr spans)
            with assms eq Inr True tsr Some
            have "features_loop T tr sad example idx tok_span tq
                    (mark_max_context F ds sad spans) features uid = Inr (features', uid')"
              by simp
            then show ?thesis by blast
          qed
        qed
      qed
    qed
  qed
qed

lemma convert_example_appended:
  assumes "convert_example W T F msl ds mql tr sad idx example features uid
             = Some (Inr (features', uid'))"
  shows "appended_ok T features uid features' uid'"
  using convert_example_cases[OF assms] appended_ok_refl features_loop_appended
  by blast

lemma examples_loop_appended:
  "examples_loop W T F msl ds mql tr sad idx examples features uid
             = Some (Inr (features', uid')) \<Longrightarrow>
   appended_ok T features uid features' uid'"
proof (induction examples arbitrary: idx features uid)
  case Nil
  then show ?case by (simp add: appended_ok_refl)
next
  case (Cons example rest)
  from Cons.prems obtain f1 u1 where
    a: "convert_example W T F msl ds mql tr sad idx example features uid = Some (Inr (f1, u1))"
    and b: "examples_loop W T F msl ds mql tr sad (idx + 1) rest f1 u1
              = Some (Inr (features', uid'))"
    by (auto split: option.splits sum.splits prod.splits)
  from appended_ok_trans[OF convert_example_appended[OF a] Cons.IH[OF b]] show ?case .
qed

text \<open>
  Claim C3. When an invocation of \<open>squad_convert_examples_to_features\<close> returns \<open>K\<close>
  feature records, their \<open>unique_id\<close> fields are, in output order,
  \<open>1000000000, 1000000001, ..., 1000000000 + K - 1\<close>: the counter runs through all the
  examples of the invocation.
\<close>

theorem unique_ids_consecutive:
  "squad_convert_examples_to_features W F examples T max_seq_length doc_stride
       max_query_length is_training sequence_a_is_doc = Some (Inr features) \<Longrightarrow>
   map f_unique_id features = map (\<lambda>k. 1000000000 + int k) [0..<length features]"
proof -
  assume "squad_convert_examples_to_features W F examples T max_seq_length doc_stride
       max_query_length is_training sequence_a_is_doc = Some (Inr features)"
  then obtain uid' where "examples_loop W T F max_seq_length doc_stride max_query_length
       is_training sequence_a_is_doc 0 examples [] 1000000000 = Some (Inr (features, uid'))"
    by (auto simp: squad_convert_examples_to_features_def
             split: option.splits sum.splits prod.splits)
  from examples_loop_appended[OF this] show ?thesis by (auto simp: appended_ok_def)
qed

lemma features_mask_ok:
  "squad_convert_examples_to_features W F examples T max_seq_length doc_stride
       max_query_length is_training sequence_a_is_doc = Some (Inr features) \<Longrightarrow>
   f \<in> set features \<Longrightarrow> mask_ok T f"
proof -
  assume "squad_convert_examples_to_features W F examples T max_seq_length doc_stride
       max_query_length is_training sequence_a_is_doc = Some (Inr features)"
    and f: "f \<in> set features"
  then obtain uid' where "examples_loop W T F max_seq_length doc_stride max_query_length
       is_training sequence_a_is_doc 0 examples [] 1000000000 = Some (Inr (features, uid'))"
    by (auto simp: squad_convert_examples_to_features_def
             split: option.splits sum.splits prod.splits)
  from examples_loop_appended[OF this] f show ?thesis by (auto simp: appended_ok_def)
qed

text \<open>
  Claim C1, amended. For every feature record produced by
  \<open>squad_convert_examples_to_features\<close> the probability mask is 0 at \<open>cls_index\<close> and 1
  at every other position whose input id is the separator id. When the tokenizer's
  classification id differs from its separator id, that is every position whose input
  id is the separator id.
\<close>

theorem p_mask_cls_and_sep:
  assumes "squad_convert_examples_to_features W F examples T max_seq_length doc_stride
             max_query_length is_training sequence_a_is_doc = Some (Inr features)"
    and "f \<in> set features"
  shows "py_index (f_p_mask f) (f_cls_index f) = Inr 0
     \<and> (\<forall>i<length (f_input_ids f).
           int i \<noteq> f_cls_index f \<and> f_input_ids f ! i = sep_token_id T \<longrightarrow>
           py_index (f_p_mask f) (int i) = Inr 1)
     \<and> (cls_token_id T \<noteq> sep_token_id T \<longrightarrow>
          (\<forall>i<length (f_input_ids f). f_input_ids f ! i = sep_token_id T \<longrightarrow>
             py_index (f_p_mask f) (int i) = Inr 1))"
  using features_mask_ok[OF assms] unfolding mask_ok_def .

lemma convert_example_skips:
  assumes "is_training" "\<not> ex_is_impossible example" "ex_answer_text example = Some a"
    and "py_find (join_space (py_slice (ex_doc_tokens example) (ex_start_position example)
                               (ex_end_position example + 1)))
                 (join_space (W a)) = -1"
  shows "convert_example W T F msl ds mql is_training sad idx example features uid
           = Some (Inr (features, uid))"
  using assms by (simp add: convert_example_def answer_is_found_def)

lemma examples_loop_append:
  "examples_loop W T F msl ds mql tr sad idx (xs @ ys) features uid =
     continue_loop (examples_loop W T F msl ds mql tr sad idx xs features uid)
       (examples_loop W T F msl ds mql tr sad (idx + int (length xs)) ys)"
proof (induction xs arbitrary: idx features uid)
  case Nil
  show ?case by (simp add: continue_loop_def)
next
  case (Cons x xs)
  show ?case
  proof (cases "convert_example W T F msl ds mql tr sad idx x features uid")
    case None
    then show ?thesis by (simp add: continue_loop_def)
  next
    case (Some r)
    show ?thesis
    proof (cases r)
      case (Inl e)
      with Some show ?thesis by (simp add: continue_loop_def)
    next
      case (Inr st)
      obtain f1 u1 where st: "st = (f1, u1)" by (cases st) auto
      have "idx + 1 + int (length xs) = idx + int (length (x # xs))" by simp
      with Cons.IH[of "idx + 1" f1 u1] Some Inr st show ?thesis
        by (simp add: add.assoc)
    qed
  qed
qed

text \<open>
  Claim C8. When training, an example that is not impossible and whose answer tokens,
  joined with spaces, do not contain the whitespace-normalized answer text adds no
  feature record and raises nothing: the pass of the loop leaves \<open>features\<close> and
  \<open>unique_id\<close> as they were, and the result of the whole call is that of the examples
  before it continued with the examples after it.
\<close>

theorem answer_not_found_skipped:
  assumes "is_training" "\<not> ex_is_impossible example" "ex_answer_text example = Some a"
    and "py_find (join_space (py_slice (ex_doc_tokens example) (ex_start_position example)
                               (ex_end_position example + 1)))
                 (join_space (W a)) = -1"
  shows "convert_example W T F max_seq_length doc_stride max_query_length is_training
           sequence_a_is_doc example_index example features unique_id
           = Some (Inr (features, unique_id))
       \<and> squad_convert_examples_to_features W F (before @ example # rest) T max_seq_length
           doc_stride max_query_length is_training sequence_a_is_doc
         = returned
             (continue_loop
                (examples_loop W T F max_seq_length doc_stride max_query_length is_training
                   sequence_a_is_doc 0 before [] 1000000000)
                (examples_loop W T F max_seq_length doc_stride max_query_length is_training
                   sequence_a_is_doc (int (length before) + 1) rest))"
proof
  show c: "convert_example W T F max_seq_length doc_stride max_query_length is_training
           sequence_a_is_doc example_index example features unique_id
           = Some (Inr (features, unique_id))"
    by (rule convert_example_skips[where W = W and a = a, OF assms])
  have skip: "examples_loop W T F max_seq_length doc_stride max_query_length is_training
                sequence_a_is_doc i (example # rest) fs u
              = examples_loop W T F max_seq_length doc_stride max_query_length is_training
                sequence_a_is_doc (i + 1) rest fs u" for i fs u
    by (simp add: convert_example_skips[where W = W and a = a, OF assms])
  have "squad_convert_examples_to_features W F (before @ example # rest) T max_seq_length
           doc_stride max_query_length is_training sequence_a_is_doc
        = returned (examples_loop W T F max_seq_length doc_stride max_query_length
                      is_training sequence_a_is_doc 0 (before @ example # rest) []
                      1000000000)"
    by (simp add: squad_convert_examples_to_features_def returned_def)
  also have "examples_loop W T F max_seq_length doc_stride max_query_length
                      is_training sequence_a_is_doc 0 (before @ example # rest) []
                      1000000000
      = continue_loop
                (examples_loop W T F max_seq_length doc_stride max_query_length is_training
                   sequence_a_is_doc 0 before [] 1000000000)
                (examples_loop W T F max_seq_length doc_stride max_query_length is_training
                   sequence_a_is_doc (int (length before) + 1) rest)"
  proof -
    have k: "examples_loop W T F max_seq_length doc_stride max_query_length is_training
                sequence_a_is_doc (0 + int (length before)) (example # rest)
             = examples_loop W T F max_seq_length doc_stride max_query_length is_training
                sequence_a_is_doc (int (length before) + 1) rest"
      by (intro ext) (simp only: skip add_0)
    show ?thesis by (simp only: examples_loop_append k)
  qed
  finally show "squad_convert_examples_to_features W F (before @ example # rest) T max_seq_length
           doc_stride max_query_length is_training sequence_a_is_doc
         = returned
             (continue_loop
                (examples_loop W T F max_seq_length doc_stride max_query_length is_training
                   sequence_a_is_doc 0 before [] 1000000000)
                (examples_loop W T F max_seq_length doc_stride max_query_length is_training
                   sequence_a_is_doc (int (length before) + 1) rest))" .
qed

lemma span_features_positions:
  assumes "span_features T tr sad example idx tok_span tq sp uid = Inr f"
  shows "f_start_position f =
           fst (span_answer_positions tr sad (ex_is_impossible example) (fst tok_span)
                  (snd tok_span) (int (length tq)) (max_len T - max_len_single_sentence T)
                  sp (f_cls_index f))"
    and "f_end_position f =
           fst (snd (span_answer_positions tr sad (ex_is_impossible example) (fst tok_span)
                  (snd tok_span) (int (length tq)) (max_len T - max_len_single_sentence T)
                  sp (f_cls_index f)))"
  using assms by (auto simp: span_features_def Let_def split: sum.splits)

text \<open>
  Claim C2. When training on an example that is not impossible, the feature record of
  every window whose passage range \<open>[start, start + length - 1]\<close> does not contain the
  refined answer span has \<open>start_position = end_position = cls_index\<close> and the window
  is flagged impossible; when the range contains the span, the positions are the span
  minus the window's start plus the offset of the passage in the window, which is 0
  when \<open>sequence_a_is_doc\<close> and the query length plus the single-sequence special tokens
  otherwise.
\<close>

theorem window_answer_positions:
  assumes "features_loop T True sequence_a_is_doc example example_index
             (tok_start_position, tok_end_position) truncated_query spans features unique_id
           = Inr (features', unique_id')"
    and "\<not> ex_is_impossible example"
    and "k < length spans"
  shows "let w = spans ! k;
             f = features' ! (length features + k);
             query_len = int (length truncated_query);
             sequence_added_tokens = max_len T - max_len_single_sentence T;
             doc_offset = (if sequence_a_is_doc then 0 else query_len + sequence_added_tokens);
             span_is_impossible =
               snd (snd (span_answer_positions True sequence_a_is_doc
                           (ex_is_impossible example) tok_start_position tok_end_position
                           query_len sequence_added_tokens w (f_cls_index f)))
         in if sp_start w \<le> tok_start_position
               \<and> tok_end_position \<le> sp_start w + sp_length w - 1
            then f_start_position f = tok_start_position - sp_start w + doc_offset
               \<and> f_end_position f = tok_end_position - sp_start w + doc_offset
               \<and> \<not> span_is_impossible
            else f_start_position f = f_cls_index f \<and> f_end_position f = f_cls_index f
               \<and> span_is_impossible"
proof -
  from features_loop_props[OF assms(1)] obtain new where
    new: "features' = features @ new" "length new = length spans"
    and sf: "\<forall>k<length spans.
        span_features T True sequence_a_is_doc example example_index
          (tok_start_position, tok_end_position) truncated_query (spans ! k)
          (unique_id + int k) = Inr (new ! k)"
    by blast
  from sf assms(3) have
    e: "span_features T True sequence_a_is_doc example example_index
          (tok_start_position, tok_end_position) truncated_query (spans ! k)
          (unique_id + int k) = Inr (new ! k)" by blast
  have f: "features' ! (length features + k) = new ! k" using new by simp
  note p = span_features_positions[OF e]
  show ?thesis
    unfolding f Let_def
    using assms(2) by (simp add: p span_answer_positions_def Let_def)
qed

theorem window_answer_positions_witness:
  "\<exists>fs u. features_loop (toy_tokenizer 101 102) True False (hd training_examples) 0 (2, 2)
              [113] [toy_span 0 2, toy_span 2 2] [] 1000000000 = Inr (fs, u)
      \<and> f_cls_index (fs ! 0) = 0 \<and> f_cls_index (fs ! 1) = 0
      \<and> f_start_position (fs ! 0) = 0 \<and> f_end_position (fs ! 0) = 0
      \<and> f_start_position (fs ! 1) = 3 \<and> f_end_position (fs ! 1) = 3"
proof -
  let ?T = "toy_tokenizer 101 102"
  have imp: "\<not> ex_is_impossible (hd training_examples)"
    by code_simp
  obtain fs u where r: "features_loop ?T True False (hd training_examples) 0 (2, 2)
          [113] [toy_span 0 2, toy_span 2 2] [] 1000000000 = Inr (fs, u)"
    by (auto simp: span_features_def list_index_def p_mask_of_def toy_span_def window_def
          toy_tokenizer_def Let_def)
  have k0: "(0::nat) < length [toy_span 0 2, toy_span 2 2]"
    and k1: "(1::nat) < length [toy_span 0 2, toy_span 2 2]" by simp_all
  note w0 = window_answer_positions[OF r imp k0]
  note w1 = window_answer_positions[OF r imp k1]
  have c: "f_cls_index (fs ! 0) = 0" "f_cls_index (fs ! 1) = 0"
    using r
    by (auto simp: span_features_def list_index_def p_mask_of_def toy_span_def window_def
          toy_tokenizer_def Let_def)
  have p0: "f_start_position (fs ! 0) = 0 \<and> f_end_position (fs ! 0) = 0"
    using w0 c by (simp add: Let_def toy_span_def window_def toy_tokenizer_def)
  have p1: "f_start_position (fs ! 1) = 3 \<and> f_end_position (fs ! 1) = 3"
    using w1 c by (simp add: Let_def toy_span_def window_def toy_tokenizer_def)
  show ?thesis using r c p0 p1 by blast
qed

text \<open>
  The \<open>while\<close> loop ends whenever \<open>doc_stride\<close> is positive, since every pass adds a
  span: with a positive stride the whole call returns, a list of records or an error.
\<close>

lemma build_spans_returns:
  assumes "0 < doc_stride"
  shows "\<exists>r. build_spans T max_seq_length doc_stride sequence_a_is_doc all_doc_tokens
               tok_to_orig_index truncated_query spans span_doc_tokens = Some r"
proof (induction "nat (int (length all_doc_tokens) - int (length spans) * doc_stride)"
         arbitrary: spans span_doc_tokens rule: less_induct)
  case less
  show ?case
  proof (cases "int (length spans) * doc_stride < int (length all_doc_tokens)")
    case False
    then show ?thesis by (subst build_spans.simps) simp
  next
    case True
    show ?thesis
    proof (cases "make_span T max_seq_length doc_stride sequence_a_is_doc all_doc_tokens
                    tok_to_orig_index truncated_query spans span_doc_tokens")
      case (Inl e)
      with True show ?thesis by (subst build_spans.simps) simp
    next
      case (Inr encoded_dict)
      show ?thesis
      proof (cases "sp_overflowing_tokens encoded_dict")
        case None
        with True Inr show ?thesis by (subst build_spans.simps) simp
      next
        case (Some overflow)
        have "int (length (spans @ [encoded_dict])) * doc_stride
                = int (length spans) * doc_stride + doc_stride"
          by (simp add: algebra_simps)
        with True assms
        have "nat (int (length all_doc_tokens) - int (length (spans @ [encoded_dict])) * doc_stride)
                < nat (int (length all_doc_tokens) - int (length spans) * doc_stride)"
          by linarith
        from less[OF this, of overflow] obtain r where
          "build_spans T max_seq_length doc_stride sequence_a_is_doc all_doc_tokens
             tok_to_orig_index truncated_query (spans @ [encoded_dict]) overflow = Some r"
          by blast
        with True Inr Some show ?thesis by (subst build_spans.simps) simp
      qed
    qed
  qed
qed

lemma convert_example_returns:
  assumes "0 < doc_stride"
  shows "\<exists>r. convert_example W T F max_seq_length doc_stride max_query_length is_training
               sequence_a_is_doc example_index example features unique_id = Some r"
proof -
  obtain t2o o2t adt where st: "sub_tokenize T 0 (ex_doc_tokens example) [] [] [] = (t2o, o2t, adt)"
    by (cases "sub_tokenize T 0 (ex_doc_tokens example) [] [] []") auto
  from build_spans_returns[OF assms] obtain r where
    "build_spans T max_seq_length doc_stride sequence_a_is_doc adt t2o
       (encode T (ex_question_text example) max_query_length) [] (Toks adt) = Some r"
    by blast
  then show ?thesis
    unfolding convert_example_def st Let_def prod.case
    by (simp split: sum.splits)
qed

lemma examples_loop_returns:
  assumes "0 < doc_stride"
  shows "\<exists>r. examples_loop W T F max_seq_length doc_stride max_query_length is_training
               sequence_a_is_doc example_index examples features unique_id = Some r"
proof (induction examples arbitrary: example_index features unique_id)
  case Nil
  show ?case by simp
next
  case (Cons example rest)
  from convert_example_returns[OF assms] obtain r where
    r: "convert_example W T F max_seq_length doc_stride max_query_length is_training
          sequence_a_is_doc example_index example features unique_id = Some r" by blast
  show ?case
  proof (cases r)
    case (Inl e)
    with r show ?thesis by simp
  next
    case (Inr st)
    obtain f u where "st = (f, u)" by (cases st) auto
    with r Inr Cons.IH[of "example_index + 1" f u] show ?thesis by simp
  qed
qed

lemma pipeline_returns:
  assumes "0 < doc_stride"
  shows "\<exists>r. squad_convert_examples_to_features W F examples T max_seq_length doc_stride
               max_query_length is_training sequence_a_is_doc = Some r"
proof -
  from examples_loop_returns[OF assms] obtain r where
    "examples_loop W T F max_seq_length doc_stride max_query_length is_training
       sequence_a_is_doc 0 examples [] 1000000000 = Some r" by blast
  then show ?thesis
    by (cases r) (auto simp: squad_convert_examples_to_features_def)
qed

section \<open>The pipeline on concrete inputs\<close>

text \<open>
  Training on the three examples read from \<open>training_data\<close>, with windows of 7 ids and
  a stride of 2: the first and the third example give two windows each, the second is
  skipped.
\<close>

lemma training_run:
  "on_features feature_view
     (squad_convert_examples_to_features split_words scaled_arith training_examples
        (toy_tokenizer 101 102) 7 2 4 True False)
   = Some (Inr [(1000000000, 0, 5, 5, 0, [101, 113, 102, 1001, 1001, 1001, 102],
                 [0, 1, 1, 0, 0, 0, 1]),
                (1000000001, 0, 3, 3, 0, [101, 113, 102, 1001, 1001, 102, 0],
                 [0, 1, 1, 0, 0, 1, 1]),
                (1000000002, 2, 3, 3, 0, [101, 113, 102, 1001, 1001, 1001, 102],
                 [0, 1, 1, 0, 0, 0, 1]),
                (1000000003, 2, 0, 0, 0, [101, 113, 102, 1001, 1001, 102, 0],
                 [0, 1, 1, 0, 0, 1, 1])])"
  by code_simp

lemma on_features_Some:
  "on_features g r = Some (Inr vs) \<Longrightarrow> \<exists>fs. r = Some (Inr fs) \<and> map g fs = vs"
  by (cases r) (auto simp: on_features_def map_sum_def split: sum.splits)

theorem unique_ids_consecutive_witness:
  "on_features f_unique_id
     (squad_convert_examples_to_features split_words scaled_arith training_examples
        (toy_tokenizer 101 102) 7 2 4 True False)
   = Some (Inr [1000000000, 1000000001, 1000000002, 1000000003])"
proof -
  from on_features_Some[OF training_run] obtain fs where
    r: "squad_convert_examples_to_features split_words scaled_arith training_examples
          (toy_tokenizer 101 102) 7 2 4 True False = Some (Inr fs)"
    and v: "length (map feature_view fs) = 4" by auto
  from v have l: "length fs = 4" by simp
  have u: "[0..<4] = [0, 1, 2, 3]" by (simp add: upt_rec)
  from unique_ids_consecutive[OF r] l u
  have "map f_unique_id fs = [1000000000, 1000000001, 1000000002, 1000000003]" by simp
  then show ?thesis using r by (simp add: on_features_def)
qed

theorem p_mask_cls_and_sep_witness:
  "\<exists>fs. squad_convert_examples_to_features split_words scaled_arith training_examples
           (toy_tokenizer 101 102) 7 2 4 True False = Some (Inr fs)
      \<and> fs \<noteq> []
      \<and> f_input_ids (hd fs) ! 2 = sep_token_id (toy_tokenizer 101 102)
      \<and> py_index (f_p_mask (hd fs)) (f_cls_index (hd fs)) = Inr 0
      \<and> py_index (f_p_mask (hd fs)) 2 = Inr 1"
proof -
  let ?T = "toy_tokenizer 101 102"
  define vs where "vs =
              [(1000000000::int, 0::int, 5::int, 5::int, 0::int,
                 [101, 113, 102, 1001, 1001, 1001, 102::int], [0, 1, 1, 0, 0, 0, 1::int]),
                (1000000001, 0, 3, 3, 0, [101, 113, 102, 1001, 1001, 102, 0],
                 [0, 1, 1, 0, 0, 1, 1]),
                (1000000002, 2, 3, 3, 0, [101, 113, 102, 1001, 1001, 1001, 102],
                 [0, 1, 1, 0, 0, 0, 1]),
                (1000000003, 2, 0, 0, 0, [101, 113, 102, 1001, 1001, 102, 0],
                 [0, 1, 1, 0, 0, 1, 1])]"
  have "\<exists>fs. squad_convert_examples_to_features split_words scaled_arith training_examples
          ?T 7 2 4 True False = Some (Inr fs) \<and> map feature_view fs = vs"
    unfolding vs_def by (rule on_features_Some[OF training_run])
  then obtain fs where
    r: "squad_convert_examples_to_features split_words scaled_arith training_examples
          ?T 7 2 4 True False = Some (Inr fs)"
    and v0: "map feature_view fs = vs" by blast
  note v = v0[unfolded vs_def]
  from v have ne: "fs \<noteq> []" by auto
  then have m: "hd fs \<in> set fs" by simp
  from v ne have h: "feature_view (hd fs) =
      (1000000000, 0, 5, 5, 0, [101, 113, 102, 1001, 1001, 1001, 102], [0, 1, 1, 0, 0, 0, 1])"
    by (cases fs) auto
  then have ids: "f_input_ids (hd fs) = [101, 113, 102, 1001, 1001, 1001, 102]"
    and cls: "f_cls_index (hd fs) = 0"
    by (simp_all add: feature_view_def)
  have sep: "sep_token_id ?T = 102" by (simp add: toy_tokenizer_def)
  have i2: "f_input_ids (hd fs) ! 2 = sep_token_id ?T" by (simp add: ids sep)
  have lt: "2 < length (f_input_ids (hd fs))" by (simp add: ids)
  from p_mask_cls_and_sep[OF r m] have
    a: "py_index (f_p_mask (hd fs)) (f_cls_index (hd fs)) = Inr 0"
    and b: "\<forall>i<length (f_input_ids (hd fs)).
           int i \<noteq> f_cls_index (hd fs) \<and> f_input_ids (hd fs) ! i = sep_token_id ?T \<longrightarrow>
           py_index (f_p_mask (hd fs)) (int i) = Inr 1"
    by blast+
  from b[rule_format, OF lt] i2 cls have "py_index (f_p_mask (hd fs)) 2 = Inr 1" by simp
  with r ne i2 a show ?thesis by blast
qed

text \<open>
  Claim C1 says that the mask is 1 at every position that holds the separator id. With
  a tokenizer whose classification token is its separator token (both have the id 1),
  position 0 holds the separator id and is the \<open>cls_index\<close>: its mask value is 0.
\<close>

theorem p_mask_zero_at_separator:
  "on_features mask_view
     (squad_convert_examples_to_features split_words scaled_arith dev_examples
        (toy_tokenizer 1 1) 8 2 4 False False)
   = Some (Inr [([1, 113, 1, 1002, 1001, 1, 0, 0], 0, [0, 1, 1, 0, 0, 1, 1, 1])])
   \<and> sep_token_id (toy_tokenizer 1 1) = 1"
  by code_simp

theorem answer_not_found_skipped_witness:
  "convert_example split_words (toy_tokenizer 101 102) scaled_arith 7 2 4 True False 1
       mismatched_example [] 1000000000 = Some (Inr ([], 1000000000))
   \<and> squad_convert_examples_to_features split_words scaled_arith
        (dev_examples @ mismatched_example # dev_examples)
        (toy_tokenizer 101 102) 7 2 4 True False
      = returned
          (continue_loop
             (examples_loop split_words (toy_tokenizer 101 102) scaled_arith 7 2 4 True
                False 0 dev_examples [] 1000000000)
             (examples_loop split_words (toy_tokenizer 101 102) scaled_arith 7 2 4 True
                False (int (length dev_examples) + 1) dev_examples))"
proof -
  have a: "\<not> ex_is_impossible mismatched_example" by (simp add: mismatched_example_def)
  have b: "ex_answer_text mismatched_example = Some (str ''x'')"
    by (simp add: mismatched_example_def)
  have w: "split_words (str ''x'') = [str ''x'']"
    by (simp add: split_words_def str_def is_whitespace_def)
  have c: "py_find (join_space (py_slice (ex_doc_tokens mismatched_example)
                       (ex_start_position mismatched_example)
                       (ex_end_position mismatched_example + 1)))
             (join_space (split_words (str ''x''))) = -1"
    unfolding w
    by (simp add: mismatched_example_def py_slice_def py_clip_def py_find_def str_def)
  show ?thesis
    by (rule answer_not_found_skipped[where W = split_words and a = "str ''x''",
               OF TrueI a b c])
qed

end
